theory Spec2Isabelle
  imports Complex_Main "HOL-Library.Sublist"
begin

section \<open>Data model of deployment-tracker.tsx\<close>

text \<open>
  The TypeScript types of lines 19-71. Field names that occur in several types, or that are
  Isabelle keywords or HOL constants (\<open>id\<close>, \<open>note\<close>, \<open>write\<close>), carry a suffix naming
  their type. \<open>Change.details\<close> is the untagged union of the four detail types; the tag is
  the separate field \<open>type\<close>, as in the source.
\<close>

record FieldChange =
  date_F :: string
  apiName :: string
  label :: string
  fieldType_F :: string
  note_F :: string

record LWCChange =
  date_L :: string
  componentName :: string
  fileType :: string
  code :: string
  note_L :: string

record ProfileChange =
  date_P :: string
  profile_P :: string
  note_P :: string

record Access =
  read_A :: bool
  write_A :: bool

record PermissionChange =
  date_Pm :: string
  permissionSet_Pm :: string
  permission_Pm :: string
  access :: Access
  note_Pm :: string

datatype ChangeType = Field | LWC | Profile | Permission

datatype Details =
  FieldDetails FieldChange
  | LWCDetails LWCChange
  | ProfileDetails ProfileChange
  | PermissionDetails PermissionChange

record Change =
  id_C :: string
  type_C :: ChangeType
  details :: Details

record UserStory =
  id_S :: string
  userId :: string
  number :: string
  title :: string
  description :: string
  date_S :: string
  changes :: "Change list"

record User =
  id_U :: string
  email_U :: "string option"

section \<open>Query view: filter by story number and pagination (lines 273-282, 444)\<close>

text \<open>
  \<open>String.prototype.includes\<close>: the search string occurs at some position of the
  subject, compared unit by unit (so case-sensitively). \<open>startsWith\<close> is the comparison at
  one position.
\<close>

fun startsWith :: "string \<Rightarrow> string \<Rightarrow> bool" where
  "startsWith s [] = True"
| "startsWith [] (d # q) = False"
| "startsWith (c # s) (d # q) = (c = d \<and> startsWith s q)"

fun includes_str :: "string \<Rightarrow> string \<Rightarrow> bool" where
  "includes_str [] q = startsWith [] q"
| "includes_str (c # s) q = (startsWith (c # s) q \<or> includes_str s q)"

text \<open>
  Lines 273-276. A JavaScript string is falsy exactly when it is empty, so the conditional
  \<open>filterNumber ? ... : true\<close> tests \<open>filterNumber \<noteq> ''''\<close>.
\<close>

definition matchesNumber :: "string \<Rightarrow> UserStory \<Rightarrow> bool" where
  "matchesNumber filterNumber story =
     (if filterNumber \<noteq> [] then includes_str (number story) filterNumber else True)"

definition filteredStories :: "string \<Rightarrow> UserStory list \<Rightarrow> UserStory list" where
  "filteredStories filterNumber userStories = filter (matchesNumber filterNumber) userStories"

text \<open>
  \<open>Array.prototype.slice(start, end)\<close> on integer arguments: a negative index counts
  from the end of the array, both indices are clamped to the array, and an empty range
  gives the empty array.
\<close>

definition slice :: "'a list \<Rightarrow> int \<Rightarrow> int \<Rightarrow> 'a list" where
  "slice xs start fin =
     (let len = int (length xs);
          k = (if start < 0 then max (len + start) 0 else min start len);
          final = (if fin < 0 then max (len + fin) 0 else min fin len)
      in take (nat (final - k)) (drop (nat k) xs))"

text \<open>
  Lines 278-280, with the page size as an argument; the component fixes it to
  \<open>storiesPerPage = 10\<close> (line 88).
\<close>

definition storiesPerPage :: int where
  "storiesPerPage = 10"

definition indexOfLastStory :: "int \<Rightarrow> int \<Rightarrow> int" where
  "indexOfLastStory pageSize currentPage = currentPage * pageSize"

definition indexOfFirstStory :: "int \<Rightarrow> int \<Rightarrow> int" where
  "indexOfFirstStory pageSize currentPage = indexOfLastStory pageSize currentPage - pageSize"

definition currentStories :: "'a list \<Rightarrow> int \<Rightarrow> int \<Rightarrow> 'a list" where
  "currentStories stories pageSize currentPage =
     slice stories (indexOfFirstStory pageSize currentPage) (indexOfLastStory pageSize currentPage)"

text \<open>
  Line 444: \<open>Math.ceil(filteredStories.length / storiesPerPage)\<close>. The quotient is taken
  in the reals; an array has fewer than \<open>2^32\<close> elements, far below the range where the
  rounding of the double quotient could reach the next integer.
\<close>

definition pageCount :: "nat \<Rightarrow> int \<Rightarrow> int" where
  "pageCount n pageSize = \<lceil>real n / real_of_int pageSize\<rceil>"

section \<open>Change form: building and validating a draft (lines 460-534)\<close>

text \<open>The state of \<open>ChangeForm\<close> (lines 461-474), one field per \<open>useState\<close>.\<close>

record ChangeForm =
  changeType :: ChangeType
  date :: string
  fieldApiName :: string
  fieldLabel :: string
  fieldType :: string
  lwcComponentName :: string
  lwcFileType :: string
  lwcCode :: string
  profile :: string
  permissionSet :: string
  permission :: string
  readAccess :: bool
  writeAccess :: bool
  note_form :: string

definition initialForm :: ChangeForm where
  "initialForm =
     \<lparr>changeType = Field, date = [], fieldApiName = [], fieldLabel = [], fieldType = [],
      lwcComponentName = [], lwcFileType = [], lwcCode = [], profile = [],
      permissionSet = [], permission = [], readAccess = False, writeAccess = False,
      note_form = []\<rparr>"

text \<open>Lines 520-533: every field but the change type is set back to its initial value.\<close>

definition resetForm :: "ChangeForm \<Rightarrow> ChangeForm" where
  "resetForm f =
     f\<lparr>date := [], fieldApiName := [], fieldLabel := [], fieldType := [],
       lwcComponentName := [], lwcFileType := [], lwcCode := [], profile := [],
       permissionSet := [], permission := [], readAccess := False, writeAccess := False,
       note_form := []\<rparr>"

text \<open>
  Lines 477-516 of \<open>handleAddChange\<close>: the checks that precede the call of
  \<open>addChange\<close>. \<open>Inl\<close> carries the message handed to \<open>setErrorMessage\<close>, \<open>Inr\<close> the
  \<open>changeDetails\<close> built from the form. \<open>!x\<close> on a string holds exactly when the string
  is empty. The \<open>default\<close> branch of the switch cannot be reached from a value of
  \<open>ChangeType\<close>.
\<close>

definition validate :: "ChangeForm \<Rightarrow> string + Details" where
  "validate f =
     (if date f = [] then Inl ''Please select a date for the change.''
      else case changeType f of
        Field \<Rightarrow>
          if fieldApiName f = [] \<or> fieldLabel f = [] \<or> fieldType f = []
          then Inl ''Please fill in all required fields for Field Change.''
          else Inr (FieldDetails
                 \<lparr>date_F = date f, apiName = fieldApiName f, label = fieldLabel f,
                  fieldType_F = fieldType f, note_F = note_form f\<rparr>)
      | LWC \<Rightarrow>
          if lwcComponentName f = [] \<or> lwcFileType f = []
          then Inl ''Please fill in all required fields for LWC Change.''
          else Inr (LWCDetails
                 \<lparr>date_L = date f, componentName = lwcComponentName f,
                  fileType = lwcFileType f, code = lwcCode f, note_L = note_form f\<rparr>)
      | Profile \<Rightarrow>
          if profile f = [] then Inl ''Please enter a profile name.''
          else Inr (ProfileDetails
                 \<lparr>date_P = date f, profile_P = profile f, note_P = note_form f\<rparr>)
      | Permission \<Rightarrow>
          if permissionSet f = [] \<or> permission f = []
          then Inl ''Please fill in all required fields for Permission Change.''
          else Inr (PermissionDetails
                 \<lparr>date_Pm = date f, permissionSet_Pm = permissionSet f,
                  permission_Pm = permission f,
                  access = \<lparr>read_A = readAccess f, write_A = writeAccess f\<rparr>,
                  note_Pm = note_form f\<rparr>))"

section \<open>The document store\<close>

text \<open>
  Modelled from the spec: the document store of section 6 (the Supabase client, a library
  outside this repository): one table of story documents with select by equality filter,
  update by id (field overwrite) and delete by id. Each operation takes the state of the
  \<open>link\<close> to the store: a request over a link that is \<open>Down\<close> comes back with an error
  and changes nothing. \<open>requests\<close> is the log of the calls made, kept so that "no remote
  call" can be stated. \<open>select_changes\<close> is the query ending in \<open>.single()\<close>, which
  answers with an error unless exactly one row matches. Update and delete answer without
  error also when no row matches.
\<close>

datatype request =
  SelectStories string
  | SelectChanges string
  | UpdateChanges string "Change list"
  | DeleteStory string

datatype link = Up | Down

datatype store_error = Unreachable | NotSingleRow

record Remote =
  rows :: "UserStory list"
  requests :: "request list"

text \<open>
  Modelled from the spec: select by equality filter on the owner, the query
  \<open>.select('*').eq('userId', ...)\<close> of lines 111-114.
\<close>

definition select_stories :: "link \<Rightarrow> string \<Rightarrow> Remote \<Rightarrow> (store_error + UserStory list) \<times> Remote" where
  "select_stories l uid r =
     (case l of
        Down \<Rightarrow> Inl Unreachable
      | Up \<Rightarrow> Inr (filter (\<lambda>s. userId s = uid) (rows r)),
      r\<lparr>requests := requests r @ [SelectStories uid]\<rparr>)"

text \<open>
  Modelled from the spec: \<open>getChanges\<close>, the query
  \<open>.select('changes').eq('id', ...).single()\<close> of lines 210-214 and 238-242.
\<close>

definition select_changes :: "link \<Rightarrow> string \<Rightarrow> Remote \<Rightarrow> (store_error + Change list) \<times> Remote" where
  "select_changes l storyId r =
     (case l of
        Down \<Rightarrow> Inl Unreachable
      | Up \<Rightarrow> (case filter (\<lambda>s. id_S s = storyId) (rows r) of
                 [s] \<Rightarrow> Inr (changes s)
               | _ \<Rightarrow> Inl NotSingleRow),
      r\<lparr>requests := requests r @ [SelectChanges storyId]\<rparr>)"

text \<open>
  Lines 231-233 and 259-261: the stories with the given id get the new changes, the others
  stay. The store's update by id overwrites the field of its rows in the same way.
\<close>

definition setStoryChanges :: "string \<Rightarrow> Change list \<Rightarrow> UserStory list \<Rightarrow> UserStory list" where
  "setStoryChanges storyId updatedChanges stories =
     map (\<lambda>story. if id_S story = storyId then story\<lparr>changes := updatedChanges\<rparr> else story) stories"

text \<open>
  Modelled from the spec: \<open>replaceChanges\<close>, the query
  \<open>.update({ changes }).eq('id', ...)\<close> of lines 223-226 and 251-254: a full replace.
\<close>

definition update_changes :: "link \<Rightarrow> string \<Rightarrow> Change list \<Rightarrow> Remote \<Rightarrow> store_error option \<times> Remote" where
  "update_changes l storyId cs r =
     (case l of
        Down \<Rightarrow> (Some Unreachable, r\<lparr>requests := requests r @ [UpdateChanges storyId cs]\<rparr>)
      | Up \<Rightarrow> (None, r\<lparr>rows := setStoryChanges storyId cs (rows r),
                        requests := requests r @ [UpdateChanges storyId cs]\<rparr>))"

text \<open>
  Modelled from the spec: delete by id, the query \<open>.delete().eq('id', ...)\<close> of lines
  196-199.
\<close>

definition delete_story :: "link \<Rightarrow> string \<Rightarrow> Remote \<Rightarrow> store_error option \<times> Remote" where
  "delete_story l storyId r =
     (case l of
        Down \<Rightarrow> (Some Unreachable, r\<lparr>requests := requests r @ [DeleteStory storyId]\<rparr>)
      | Up \<Rightarrow> (None, r\<lparr>rows := filter (\<lambda>s. id_S s \<noteq> storyId) (rows r),
                        requests := requests r @ [DeleteStory storyId]\<rparr>))"

section \<open>The component: session, story cache, change log (lines 73-263)\<close>

text \<open>
  The state of \<open>Component\<close> that the modelled handlers read or write. The fields of the
  sign-in form and of the new-story form are left out, with \<open>handleAuthentication\<close> and
  \<open>addUserStory\<close>, which alone use them.
\<close>

record Component =
  currentUser :: "User option"
  userStories :: "UserStory list"
  expandedStories :: "string list"
  filterNumber :: string
  currentPage :: int
  errorMessage :: string

definition initialComponent :: Component where
  "initialComponent =
     \<lparr>currentUser = None, userStories = [], expandedStories = [], filterNumber = [],
      currentPage = 1, errorMessage = []\<rparr>"

text \<open>
  Lines 109-120. Nothing happens without a user; a failed query is only logged to the
  console, and a successful one replaces the cache.
\<close>

definition fetchUserStories :: "link \<Rightarrow> Remote \<times> Component \<Rightarrow> Remote \<times> Component" where
  "fetchUserStories l w =
     (case w of (r, st) \<Rightarrow>
        (case currentUser st of
           None \<Rightarrow> (r, st)
         | Some u \<Rightarrow>
             (case select_stories l (id_U u) r of
                (Inl e, r') \<Rightarrow> (r', st)
              | (Inr data, r') \<Rightarrow> (r', st\<lparr>userStories := data\<rparr>))))"

text \<open>
  Lines 98-107 and 122-126: the listener stores the session's user (or none), and the
  effect that depends on \<open>currentUser\<close> then loads the stories when there is a user.
\<close>

definition authStateChange :: "link \<Rightarrow> User option \<Rightarrow> Remote \<times> Component \<Rightarrow> Remote \<times> Component" where
  "authStateChange l u w =
     (case w of (r, st) \<Rightarrow>
        (case u of
           None \<Rightarrow> (r, st\<lparr>currentUser := None\<rparr>)
         | Some v \<Rightarrow> fetchUserStories l (r, st\<lparr>currentUser := Some v\<rparr>)))"

text \<open>
  Lines 155-160. The argument is the \<open>error\<close> of the provider's \<open>signOut\<close>; without one
  the provider reports the end of the session to the listener.
\<close>

definition handleLogout :: "string option \<Rightarrow> Remote \<times> Component \<Rightarrow> Remote \<times> Component" where
  "handleLogout signOutError w =
     (case w of (r, st) \<Rightarrow>
        (case signOutError of
           Some message \<Rightarrow> (r, st\<lparr>errorMessage := message\<rparr>)
         | None \<Rightarrow> authStateChange Up None (r, st)))"

text \<open>Lines 195-207.\<close>

definition removeUserStory :: "link \<Rightarrow> string \<Rightarrow> Remote \<times> Component \<Rightarrow> Remote \<times> Component" where
  "removeUserStory l sid w =
     (case w of (r, st) \<Rightarrow>
        (case delete_story l sid r of
           (Some e, r') \<Rightarrow> (r', st\<lparr>errorMessage := ''Error removing user story''\<rparr>)
         | (None, r') \<Rightarrow>
             (r', st\<lparr>userStories := filter (\<lambda>story. id_S story \<noteq> sid) (userStories st),
                     expandedStories := filter (\<lambda>storyId. storyId \<noteq> sid) (expandedStories st)\<rparr>)))"

text \<open>\<open>Date.now().toString()\<close>: the clock reading in milliseconds, in decimal.\<close>

definition digit :: "nat \<Rightarrow> char" where
  "digit d =
     (if d = 0 then CHR ''0'' else if d = 1 then CHR ''1'' else if d = 2 then CHR ''2''
      else if d = 3 then CHR ''3'' else if d = 4 then CHR ''4'' else if d = 5 then CHR ''5''
      else if d = 6 then CHR ''6'' else if d = 7 then CHR ''7'' else if d = 8 then CHR ''8''
      else CHR ''9'')"

function toString :: "nat \<Rightarrow> string" where
  "toString n = (if n < 10 then [digit n] else toString (n div 10) @ [digit (n mod 10)])"
  by pat_completeness auto
termination
  by (relation "measure (\<lambda>n. n)") auto

declare toString.simps [simp del]

text \<open>
  Lines 209-235. \<open>addChange\<close> suspends twice, at the \<open>await\<close> of the select and at the
  \<open>await\<close> of the update. \<open>addChange_read\<close> is the code up to the second \<open>await\<close>: the
  select, the error branch, and the new list, built with the clock reading \<open>now\<close> taken
  at that moment. \<open>addChange_write\<close> is the rest: the update and the reconciliation of the
  cache. \<open>addChange\<close> runs the two without anything in between.
\<close>

definition addChange_read ::
  "link \<Rightarrow> nat \<Rightarrow> string \<Rightarrow> ChangeType \<Rightarrow> Details \<Rightarrow> Remote \<times> Component
     \<Rightarrow> Change list option \<times> Remote \<times> Component" where
  "addChange_read l now storyId changeType' changeDetails w =
     (case w of (r, st) \<Rightarrow>
        (case select_changes l storyId r of
           (Inl e, r') \<Rightarrow> (None, r', st\<lparr>errorMessage := ''Error fetching user story''\<rparr>)
         | (Inr data, r') \<Rightarrow>
             (Some (data @ [\<lparr>id_C = toString now, type_C = changeType', details = changeDetails\<rparr>]),
              r', st)))"

definition addChange_write :: "link \<Rightarrow> string \<Rightarrow> Change list \<Rightarrow> Remote \<times> Component \<Rightarrow> Remote \<times> Component" where
  "addChange_write l storyId updatedChanges w =
     (case w of (r, st) \<Rightarrow>
        (case update_changes l storyId updatedChanges r of
           (Some e, r') \<Rightarrow> (r', st\<lparr>errorMessage := ''Error adding change''\<rparr>)
         | (None, r') \<Rightarrow>
             (r', st\<lparr>userStories := setStoryChanges storyId updatedChanges (userStories st)\<rparr>)))"

definition addChange ::
  "link \<Rightarrow> link \<Rightarrow> nat \<Rightarrow> string \<Rightarrow> ChangeType \<Rightarrow> Details \<Rightarrow> Remote \<times> Component
     \<Rightarrow> Remote \<times> Component" where
  "addChange l1 l2 now storyId changeType' changeDetails w =
     (case addChange_read l1 now storyId changeType' changeDetails w of
        (None, w') \<Rightarrow> w'
      | (Some updatedChanges, w') \<Rightarrow> addChange_write l2 storyId updatedChanges w')"

text \<open>Lines 237-263, split at the second \<open>await\<close> in the same way.\<close>

definition removeChange_read ::
  "link \<Rightarrow> string \<Rightarrow> string \<Rightarrow> Remote \<times> Component \<Rightarrow> Change list option \<times> Remote \<times> Component" where
  "removeChange_read l storyId changeId w =
     (case w of (r, st) \<Rightarrow>
        (case select_changes l storyId r of
           (Inl e, r') \<Rightarrow> (None, r', st\<lparr>errorMessage := ''Error fetching user story''\<rparr>)
         | (Inr data, r') \<Rightarrow>
             (Some (filter (\<lambda>change. id_C change \<noteq> changeId) data), r', st)))"

definition removeChange_write :: "link \<Rightarrow> string \<Rightarrow> Change list \<Rightarrow> Remote \<times> Component \<Rightarrow> Remote \<times> Component" where
  "removeChange_write l storyId updatedChanges w =
     (case w of (r, st) \<Rightarrow>
        (case update_changes l storyId updatedChanges r of
           (Some e, r') \<Rightarrow> (r', st\<lparr>errorMessage := ''Error removing change''\<rparr>)
         | (None, r') \<Rightarrow>
             (r', st\<lparr>userStories := setStoryChanges storyId updatedChanges (userStories st)\<rparr>)))"

definition removeChange ::
  "link \<Rightarrow> link \<Rightarrow> string \<Rightarrow> string \<Rightarrow> Remote \<times> Component \<Rightarrow> Remote \<times> Component" where
  "removeChange l1 l2 storyId changeId w =
     (case removeChange_read l1 storyId changeId w of
        (None, w') \<Rightarrow> w'
      | (Some updatedChanges, w') \<Rightarrow> removeChange_write l2 storyId updatedChanges w')"

text \<open>
  What a caller of \<open>addChange\<close> or \<open>removeChange\<close> gets back. Each body has one bare
  \<open>return\<close> (lines 218, 246) and otherwise runs to its end without a \<open>return\<close>
  statement, so the promise resolves to \<open>undefined\<close> on every path; the prop of
  \<open>ChangeForm\<close> is typed as returning nothing (line 460) and \<open>handleAddChange\<close> does
  not read the result (line 518).
\<close>

datatype 'a js_result = Undefined | Value 'a

definition addChange_result ::
  "link \<Rightarrow> link \<Rightarrow> nat \<Rightarrow> string \<Rightarrow> ChangeType \<Rightarrow> Details \<Rightarrow> Remote \<times> Component
     \<Rightarrow> Change list js_result" where
  "addChange_result l1 l2 now storyId changeType' changeDetails w =
     (case addChange_read l1 now storyId changeType' changeDetails w of
        (None, w') \<Rightarrow> Undefined
      | (Some updatedChanges, w') \<Rightarrow>
          (case addChange_write l2 storyId updatedChanges w' of (r', st') \<Rightarrow> Undefined))"

definition removeChange_result ::
  "link \<Rightarrow> link \<Rightarrow> string \<Rightarrow> string \<Rightarrow> Remote \<times> Component \<Rightarrow> Change list js_result" where
  "removeChange_result l1 l2 storyId changeId w =
     (case removeChange_read l1 storyId changeId w of
        (None, w') \<Rightarrow> Undefined
      | (Some updatedChanges, w') \<Rightarrow>
          (case removeChange_write l2 storyId updatedChanges w' of (r', st') \<Rightarrow> Undefined))"

text \<open>
  Lines 476-534: \<open>handleAddChange\<close> as a whole. A draft that fails a check sets the
  message and leaves the form as it is; otherwise \<open>addChange\<close> is called and the form is
  reset.
\<close>

definition handleAddChange ::
  "link \<Rightarrow> link \<Rightarrow> nat \<Rightarrow> string \<Rightarrow> ChangeForm \<times> Remote \<times> Component
     \<Rightarrow> ChangeForm \<times> Remote \<times> Component" where
  "handleAddChange l1 l2 now storyId fw =
     (case fw of (f, r, st) \<Rightarrow>
        (case validate f of
           Inl message \<Rightarrow> (f, r, st\<lparr>errorMessage := message\<rparr>)
         | Inr changeDetails \<Rightarrow>
             (resetForm f, addChange l1 l2 now storyId (changeType f) changeDetails (r, st))))"

text \<open>
  Two calls of \<open>addChange\<close> on the same story where the second is issued before the first
  has written: both selects are answered, then both updates, in the order of the calls.
\<close>

definition interleaved_addChange ::
  "nat \<Rightarrow> nat \<Rightarrow> string \<Rightarrow> ChangeType \<Rightarrow> Details \<Rightarrow> ChangeType \<Rightarrow> Details
     \<Rightarrow> Remote \<times> Component \<Rightarrow> Remote \<times> Component" where
  "interleaved_addChange now1 now2 storyId type1 details1 type2 details2 w =
     (case addChange_read Up now1 storyId type1 details1 w of
        (None, w1) \<Rightarrow> addChange Up Up now2 storyId type2 details2 w1
      | (Some updated1, w1) \<Rightarrow>
          (case addChange_read Up now2 storyId type2 details2 w1 of
             (None, w2) \<Rightarrow> addChange_write Up storyId updated1 w2
           | (Some updated2, w2) \<Rightarrow>
               addChange_write Up storyId updated2 (addChange_write Up storyId updated1 w2)))"

text \<open>
  Lines 284-332 and 408: without a user the sign-in screen is rendered and no story is
  shown; with one, the current page of the filtered stories.
\<close>

definition visibleStories :: "Component \<Rightarrow> UserStory list" where
  "visibleStories st =
     (case currentUser st of
        None \<Rightarrow> []
      | Some u \<Rightarrow>
          currentStories (filteredStories (filterNumber st) (userStories st))
            storiesPerPage (currentPage st))"

section \<open>Example data\<close>

definition aStory :: "string \<Rightarrow> string \<Rightarrow> string \<Rightarrow> Change list \<Rightarrow> UserStory" where
  "aStory sid uid num cs =
     \<lparr>id_S = sid, userId = uid, number = num, title = ''Add field'', description = [],
      date_S = ''2024-01-01'', changes = cs\<rparr>"

definition fooField :: Details where
  "fooField = FieldDetails
     \<lparr>date_F = ''2024-01-02'', apiName = ''Foo__c'', label = ''Foo'', fieldType_F = ''Text'',
      note_F = []\<rparr>"

definition fooForm :: ChangeForm where
  "fooForm = initialForm
     \<lparr>date := ''2024-01-02'', fieldApiName := ''Foo__c'', fieldLabel := ''Foo'',
      fieldType := ''Text''\<rparr>"

definition aChange :: "string \<Rightarrow> Change" where
  "aChange cid = \<lparr>id_C = cid, type_C = Field, details = fooField\<rparr>"

definition alice :: User where
  "alice = \<lparr>id_U = ''alice'', email_U = None\<rparr>"

definition bob :: User where
  "bob = \<lparr>id_U = ''bob'', email_U = None\<rparr>"

definition aStore :: "UserStory list \<Rightarrow> Remote" where
  "aStore ss = \<lparr>rows = ss, requests = []\<rparr>"

definition aliceSession :: "UserStory list \<Rightarrow> Component" where
  "aliceSession ss = initialComponent\<lparr>currentUser := Some alice, userStories := ss\<rparr>"

definition permissionSetOnlyForm :: ChangeForm where
  "permissionSetOnlyForm = initialForm
     \<lparr>changeType := Permission, date := ''2024-01-02'', permissionSet := ''Sales_Ops''\<rparr>"

definition permissionForm :: ChangeForm where
  "permissionForm = initialForm
     \<lparr>changeType := Permission, date := ''2024-01-02'', permissionSet := ''Sales_Ops'',
      permission := ''Account''\<rparr>"

definition twoOwners :: Remote where
  "twoOwners = aStore [aStory ''s1'' ''alice'' ''US-1'' [aChange ''1704153600000''],
                       aStory ''s2'' ''bob'' ''US-2'' []]"

section \<open>Properties of the query view\<close>

lemma startsWith_iff: "startsWith s q \<longleftrightarrow> (\<exists>post. s = q @ post)"
  by (induction s q rule: startsWith.induct) auto

lemma includes_str_iff: "includes_str s q \<longleftrightarrow> (\<exists>pre post. s = pre @ q @ post)"
proof (induction s)
  case Nil
  show ?case by (cases q) auto
next
  case (Cons c s)
  show ?case
  proof
    assume "includes_str (c # s) q"
    then consider "startsWith (c # s) q" | "includes_str s q" by auto
    then show "\<exists>pre post. c # s = pre @ q @ post"
    proof cases
      case 1
      then obtain post where "c # s = q @ post" by (auto simp: startsWith_iff)
      then have "c # s = [] @ q @ post" by simp
      then show ?thesis by blast
    next
      case 2
      then obtain pre post where "s = pre @ q @ post" using Cons.IH by blast
      then have "c # s = (c # pre) @ q @ post" by simp
      then show ?thesis by blast
    qed
  next
    assume "\<exists>pre post. c # s = pre @ q @ post"
    then obtain pre post where eq: "c # s = pre @ q @ post" by blast
    show "includes_str (c # s) q"
    proof (cases pre)
      case Nil
      with eq have "startsWith (c # s) q" by (auto simp: startsWith_iff)
      then show ?thesis by simp
    next
      case (Cons p pre')
      with eq have "s = pre' @ q @ post" by simp
      then have "includes_str s q" using Cons.IH by blast
      then show ?thesis by simp
    qed
  qed
qed

lemma matchesNumber_iff:
  "matchesNumber q story \<longleftrightarrow> (\<exists>pre post. number story = pre @ q @ post)"
proof (cases "q = []")
  case True
  have "number story = [] @ [] @ number story" by simp
  then have "\<exists>pre post. number story = pre @ [] @ post" by blast
  with True show ?thesis by (simp add: matchesNumber_def)
next
  case False
  then show ?thesis by (simp add: matchesNumber_def includes_str_iff)
qed

lemma slice_page:
  assumes "0 \<le> a" and "a \<le> b"
  shows "slice xs a b = take (nat (b - a)) (drop (nat a) xs)"
proof (cases "int (length xs) \<le> a")
  case True
  then have "drop (nat a) xs = []" by simp
  moreover from True assms have "slice xs a b = take 0 (drop (nat a) xs)"
    by (simp add: slice_def Let_def min_def)
  ultimately show ?thesis by simp
next
  case False
  show ?thesis
  proof (cases "b \<le> int (length xs)")
    case True
    with False assms show ?thesis by (simp add: slice_def Let_def min_def)
  next
    case bl: False
    with False assms have "slice xs a b = take (nat (int (length xs) - a)) (drop (nat a) xs)"
      by (simp add: slice_def Let_def min_def)
    moreover have "length (drop (nat a) xs) = nat (int (length xs) - a)"
      using assms False by simp
    moreover have "nat (int (length xs) - a) \<le> nat (b - a)"
      using bl by simp
    ultimately show ?thesis by simp
  qed
qed

lemma currentStories_take_drop:
  assumes "0 < pageSize" and "1 \<le> p"
  shows "currentStories xs pageSize p = take (nat pageSize) (drop (nat ((p - 1) * pageSize)) xs)"
proof -
  have first: "indexOfFirstStory pageSize p = (p - 1) * pageSize"
    by (simp add: indexOfFirstStory_def indexOfLastStory_def algebra_simps)
  have "0 \<le> (p - 1) * pageSize" using assms by simp
  moreover have "(p - 1) * pageSize \<le> p * pageSize" using assms by (simp add: algebra_simps)
  ultimately have "slice xs ((p - 1) * pageSize) (p * pageSize)
      = take (nat (p * pageSize - (p - 1) * pageSize)) (drop (nat ((p - 1) * pageSize)) xs)"
    by (rule slice_page)
  moreover have "p * pageSize - (p - 1) * pageSize = pageSize" by (simp add: algebra_simps)
  ultimately show ?thesis
    by (simp add: currentStories_def first indexOfLastStory_def)
qed

lemma pageCount_div:
  "pageCount n pageSize = - ((- int n) div pageSize)"
  unfolding pageCount_def by (metis ceiling_divide_eq_div of_int_of_nat_eq)

lemma pageCount_covers:
  assumes "0 < pageSize"
  shows "int n \<le> pageCount n pageSize * pageSize"
proof -
  have "real n / real_of_int pageSize \<le> of_int (pageCount n pageSize)"
    unfolding pageCount_def by (rule le_of_int_ceiling)
  then have "real n \<le> of_int (pageCount n pageSize) * real_of_int pageSize"
    using assms by (simp add: pos_divide_le_eq)
  then have "real_of_int (int n) \<le> real_of_int (pageCount n pageSize * pageSize)" by simp
  then show ?thesis by (simp only: of_int_le_iff)
qed

lemma pageCount_least:
  assumes "0 < pageSize" and "int n \<le> k * pageSize"
  shows "pageCount n pageSize \<le> k"
proof -
  have "real_of_int (int n) \<le> real_of_int (k * pageSize)"
    using assms(2) by (simp only: of_int_le_iff)
  then have "real n \<le> of_int k * real_of_int pageSize" by simp
  then have "real n / real_of_int pageSize \<le> of_int k"
    using assms(1) by (simp add: pos_divide_le_eq)
  then show ?thesis unfolding pageCount_def by (simp add: ceiling_le_iff)
qed

section \<open>Claims on the query view\<close>

text \<open>
  C9. For a page size above zero and a page number from one, the stories shown are the
  slice of the input from index \<open>(pageNumber - 1) * pageSize\<close> up to, not including,
  \<open>pageNumber * pageSize\<close>, cut at the end of the input: as many elements as the input
  has there, each the input's element at that index. A page number beyond the page count
  gives the empty list. The page count is the ceiling of \<open>n / pageSize\<close>: the least
  number of pages of that size that hold \<open>n\<close> stories.
\<close>

theorem paginate_slice_and_pageCount:
  assumes "0 < pageSize" and "1 \<le> pageNumber"
  shows "currentStories stories pageSize pageNumber
           = take (nat pageSize) (drop (nat ((pageNumber - 1) * pageSize)) stories)
       \<and> length (currentStories stories pageSize pageNumber)
           = min (nat pageSize) (length stories - nat ((pageNumber - 1) * pageSize))
       \<and> (\<forall>i < length (currentStories stories pageSize pageNumber).
            currentStories stories pageSize pageNumber ! i
              = stories ! (nat ((pageNumber - 1) * pageSize) + i))
       \<and> (pageCount (length stories) pageSize < pageNumber
            \<longrightarrow> currentStories stories pageSize pageNumber = [])
       \<and> real n / real_of_int pageSize \<le> of_int (pageCount n pageSize)
       \<and> of_int (pageCount n pageSize) < real n / real_of_int pageSize + 1
       \<and> int n \<le> pageCount n pageSize * pageSize
       \<and> (\<forall>k. int n \<le> k * pageSize \<longrightarrow> pageCount n pageSize \<le> k)"
proof -
  let ?first = "nat ((pageNumber - 1) * pageSize)"
  have eq: "currentStories stories pageSize pageNumber = take (nat pageSize) (drop ?first stories)"
    using assms by (rule currentStories_take_drop)
  have len: "length (currentStories stories pageSize pageNumber)
      = min (nat pageSize) (length stories - ?first)"
    by (simp add: eq min.commute)
  have nth: "\<forall>i < length (currentStories stories pageSize pageNumber).
      currentStories stories pageSize pageNumber ! i = stories ! (?first + i)"
    by (auto simp: eq)
  have beyond: "currentStories stories pageSize pageNumber = []"
    if "pageCount (length stories) pageSize < pageNumber"
  proof -
    from that have "pageCount (length stories) pageSize \<le> pageNumber - 1" by simp
    then have "pageCount (length stories) pageSize * pageSize \<le> (pageNumber - 1) * pageSize"
      using assms(1) by (simp add: mult_right_mono)
    with pageCount_covers [OF assms(1), of "length stories"]
    have "int (length stories) \<le> (pageNumber - 1) * pageSize" by linarith
    then have "length stories \<le> ?first" by simp
    then show ?thesis by (simp add: eq)
  qed
  have lo: "real n / real_of_int pageSize \<le> of_int (pageCount n pageSize)"
    unfolding pageCount_def by (rule le_of_int_ceiling)
  have hi: "of_int (pageCount n pageSize) < real n / real_of_int pageSize + 1"
    unfolding pageCount_def by linarith
  have least: "\<forall>k. int n \<le> k * pageSize \<longrightarrow> pageCount n pageSize \<le> k"
    using pageCount_least [OF assms(1)] by blast
  from eq len nth beyond lo hi pageCount_covers [OF assms(1), of n] least
  show ?thesis by blast
qed

theorem paginate_slice_and_pageCount_witness:
  "(0::int) < 2 \<and> (1::int) \<le> 3 \<and> (1::int) \<le> 4
   \<and> currentStories ''abcde'' 2 3 = ''e''
   \<and> pageCount (length ''abcde'') 2 = 3
   \<and> currentStories ''abcde'' 2 4 = []"
proof -
  have size: "(0::int) < 2" and p3: "(1::int) \<le> 3" and p4: "(1::int) \<le> 4" by simp_all
  have third: "currentStories ''abcde'' 2 3 = ''e''"
    using paginate_slice_and_pageCount [OF size p3, of "''abcde''" 5] by simp
  have count: "pageCount (length ''abcde'') 2 = 3"
    by (simp add: pageCount_def)
  have "pageCount (length ''abcde'') 2 < 4 \<longrightarrow> currentStories ''abcde'' 2 4 = []"
    using paginate_slice_and_pageCount [OF size p4, of "''abcde''" 5] by blast
  with count have "currentStories ''abcde'' 2 4 = []" by simp
  with size p3 p4 third count show ?thesis by blast
qed

text \<open>
  C10. Filtering by number keeps exactly the stories whose number contains the query as a
  contiguous run of characters, compared exactly, in the order of the input; the empty
  query keeps every story; filtering a second time with the same query changes nothing.
\<close>

theorem filterByNumber_substring_stable_idempotent:
  "filteredStories q stories
     = filter (\<lambda>s. \<exists>pre post. number s = pre @ q @ post) stories
   \<and> subseq (filteredStories q stories) stories
   \<and> filteredStories [] stories = stories
   \<and> filteredStories q (filteredStories q stories) = filteredStories q stories"
proof -
  have "matchesNumber q = (\<lambda>s. \<exists>pre post. number s = pre @ q @ post)"
    by (rule ext) (rule matchesNumber_iff)
  then have "filteredStories q stories
      = filter (\<lambda>s. \<exists>pre post. number s = pre @ q @ post) stories"
    by (simp add: filteredStories_def)
  moreover have "subseq (filteredStories q stories) stories"
    by (simp add: filteredStories_def)
  moreover have "filteredStories [] stories = stories"
    by (simp add: filteredStories_def matchesNumber_def)
  moreover have "filteredStories q (filteredStories q stories) = filteredStories q stories"
    by (simp add: filteredStories_def)
  ultimately show ?thesis by blast
qed

theorem filterByNumber_witness:
  "filteredStories ''US'' [aStory ''1'' ''alice'' ''US-1'' [], aStory ''2'' ''alice'' ''us-2'' [],
       aStory ''3'' ''alice'' ''BUS-3'' []]
     = [aStory ''1'' ''alice'' ''US-1'' [], aStory ''3'' ''alice'' ''BUS-3'' []]
   \<and> filteredStories ''US'' (filteredStories ''US'' [aStory ''1'' ''alice'' ''US-1'' [],
       aStory ''2'' ''alice'' ''us-2'' [], aStory ''3'' ''alice'' ''BUS-3'' []])
     = [aStory ''1'' ''alice'' ''US-1'' [], aStory ''3'' ''alice'' ''BUS-3'' []]"
proof -
  let ?xs = "[aStory ''1'' ''alice'' ''US-1'' [], aStory ''2'' ''alice'' ''us-2'' [],
       aStory ''3'' ''alice'' ''BUS-3'' []]"
  have ev: "filteredStories ''US'' ?xs
      = [aStory ''1'' ''alice'' ''US-1'' [], aStory ''3'' ''alice'' ''BUS-3'' []]"
    by (simp add: filteredStories_def matchesNumber_def aStory_def)
  from filterByNumber_substring_stable_idempotent [of "''US''" ?xs]
  have "filteredStories ''US'' (filteredStories ''US'' ?xs) = filteredStories ''US'' ?xs"
    by blast
  with ev show ?thesis by simp
qed

section \<open>Properties of the store and of the change log operations\<close>

lemma snd_select_changes:
  "snd (select_changes l sid r) = r\<lparr>requests := requests r @ [SelectChanges sid]\<rparr>"
  by (simp add: select_changes_def)

lemma select_changes_requests:
  "fst (select_changes l sid (r\<lparr>requests := q\<rparr>)) = fst (select_changes l sid r)"
  by (cases l) (simp_all add: select_changes_def)

lemma select_changes_Inr:
  "fst (select_changes l sid r) = Inr current \<longleftrightarrow>
     l = Up \<and> (\<exists>s. filter (\<lambda>s. id_S s = sid) (rows r) = [s] \<and> changes s = current)"
  by (cases l) (auto simp: select_changes_def split: list.splits)

lemma filter_setStoryChanges:
  "filter (\<lambda>s. id_S s = sid) (setStoryChanges sid cs xs)
     = map (\<lambda>s. s\<lparr>changes := cs\<rparr>) (filter (\<lambda>s. id_S s = sid) xs)"
  by (induction xs) (auto simp: setStoryChanges_def)

lemma setStoryChanges_twice:
  "setStoryChanges sid cs (setStoryChanges sid cs' xs) = setStoryChanges sid cs xs"
  by (induction xs) (auto simp: setStoryChanges_def)

lemma setStoryChanges_same:
  "(\<forall>s \<in> set xs. id_S s = sid \<longrightarrow> changes s = cs) \<Longrightarrow> setStoryChanges sid cs xs = xs"
  by (induction xs) (auto simp: setStoryChanges_def)

lemma single_row_same:
  assumes "filter (\<lambda>s. id_S s = sid) xs = [s]"
  shows "\<forall>t \<in> set xs. id_S t = sid \<longrightarrow> changes t = changes s"
proof (intro ballI impI)
  fix t assume "t \<in> set xs" and "id_S t = sid"
  then have "t \<in> set (filter (\<lambda>s. id_S s = sid) xs)" by simp
  with assms show "changes t = changes s" by simp
qed

lemma select_after_update:
  assumes "fst (select_changes l sid r) = Inr current"
  shows "fst (select_changes Up sid (r\<lparr>rows := setStoryChanges sid cs (rows r), requests := q\<rparr>)) = Inr cs"
proof -
  from assms obtain s where "filter (\<lambda>s. id_S s = sid) (rows r) = [s]"
    by (auto simp: select_changes_Inr)
  then show ?thesis by (simp add: select_changes_def filter_setStoryChanges)
qed

lemma addChange_read_ok:
  assumes "fst (select_changes l sid r) = Inr current"
  shows "addChange_read l now sid ty det (r, st)
     = (Some (current @ [\<lparr>id_C = toString now, type_C = ty, details = det\<rparr>]),
        r\<lparr>requests := requests r @ [SelectChanges sid]\<rparr>, st)"
  using assms snd_select_changes [of l sid r]
  by (cases "select_changes l sid r") (simp add: addChange_read_def)

lemma addChange_read_fail:
  assumes "fst (select_changes l sid r) = Inl e"
  shows "addChange_read l now sid ty det (r, st)
     = (None, r\<lparr>requests := requests r @ [SelectChanges sid]\<rparr>,
        st\<lparr>errorMessage := ''Error fetching user story''\<rparr>)"
  using assms snd_select_changes [of l sid r]
  by (cases "select_changes l sid r") (simp add: addChange_read_def)

lemma removeChange_read_ok:
  assumes "fst (select_changes l sid r) = Inr current"
  shows "removeChange_read l sid cid (r, st)
     = (Some (filter (\<lambda>change. id_C change \<noteq> cid) current),
        r\<lparr>requests := requests r @ [SelectChanges sid]\<rparr>, st)"
  using assms snd_select_changes [of l sid r]
  by (cases "select_changes l sid r") (simp add: removeChange_read_def)

lemma removeChange_read_fail:
  assumes "fst (select_changes l sid r) = Inl e"
  shows "removeChange_read l sid cid (r, st)
     = (None, r\<lparr>requests := requests r @ [SelectChanges sid]\<rparr>,
        st\<lparr>errorMessage := ''Error fetching user story''\<rparr>)"
  using assms snd_select_changes [of l sid r]
  by (cases "select_changes l sid r") (simp add: removeChange_read_def)

lemma addChange_write_Up:
  "addChange_write Up sid cs (r, st)
     = (r\<lparr>rows := setStoryChanges sid cs (rows r),
          requests := requests r @ [UpdateChanges sid cs]\<rparr>,
        st\<lparr>userStories := setStoryChanges sid cs (userStories st)\<rparr>)"
  by (simp add: addChange_write_def update_changes_def)

lemma addChange_write_Down:
  "addChange_write Down sid cs (r, st)
     = (r\<lparr>requests := requests r @ [UpdateChanges sid cs]\<rparr>,
        st\<lparr>errorMessage := ''Error adding change''\<rparr>)"
  by (simp add: addChange_write_def update_changes_def)

lemma removeChange_write_Up:
  "removeChange_write Up sid cs (r, st)
     = (r\<lparr>rows := setStoryChanges sid cs (rows r),
          requests := requests r @ [UpdateChanges sid cs]\<rparr>,
        st\<lparr>userStories := setStoryChanges sid cs (userStories st)\<rparr>)"
  by (simp add: removeChange_write_def update_changes_def)

lemma removeChange_write_Down:
  "removeChange_write Down sid cs (r, st)
     = (r\<lparr>requests := requests r @ [UpdateChanges sid cs]\<rparr>,
        st\<lparr>errorMessage := ''Error removing change''\<rparr>)"
  by (simp add: removeChange_write_def update_changes_def)

lemma addChange_ok:
  assumes "fst (select_changes l1 sid r) = Inr current"
  shows "addChange l1 Up now sid ty det (r, st)
     = (r\<lparr>rows := setStoryChanges sid
                 (current @ [\<lparr>id_C = toString now, type_C = ty, details = det\<rparr>]) (rows r),
          requests := requests r @ [SelectChanges sid, UpdateChanges sid
                 (current @ [\<lparr>id_C = toString now, type_C = ty, details = det\<rparr>])]\<rparr>,
        st\<lparr>userStories := setStoryChanges sid
                 (current @ [\<lparr>id_C = toString now, type_C = ty, details = det\<rparr>]) (userStories st)\<rparr>)"
  by (simp add: addChange_def addChange_read_ok [OF assms] addChange_write_Up)

lemma removeChange_ok:
  assumes "fst (select_changes l1 sid r) = Inr current"
  shows "removeChange l1 Up sid cid (r, st)
     = (r\<lparr>rows := setStoryChanges sid (filter (\<lambda>change. id_C change \<noteq> cid) current) (rows r),
          requests := requests r @ [SelectChanges sid, UpdateChanges sid
                 (filter (\<lambda>change. id_C change \<noteq> cid) current)]\<rparr>,
        st\<lparr>userStories := setStoryChanges sid
                 (filter (\<lambda>change. id_C change \<noteq> cid) current) (userStories st)\<rparr>)"
  by (simp add: removeChange_def removeChange_read_ok [OF assms] removeChange_write_Up)

lemma setStoryChanges_current:
  assumes "fst (select_changes l sid r) = Inr current"
  shows "setStoryChanges sid current (rows r) = rows r"
proof -
  from assms obtain s where s: "filter (\<lambda>s. id_S s = sid) (rows r) = [s]" "changes s = current"
    by (auto simp: select_changes_Inr)
  from single_row_same [OF s(1)] s(2)
  have "\<forall>t \<in> set (rows r). id_S t = sid \<longrightarrow> changes t = current" by simp
  then show ?thesis by (rule setStoryChanges_same)
qed

lemma filter_appended_fresh:
  assumes "cid \<notin> id_C ` set current" and "id_C new = cid"
  shows "filter (\<lambda>c. id_C c \<noteq> cid) (current @ [new]) = current"
proof -
  from assms(1) have "filter (\<lambda>c. id_C c \<noteq> cid) current = current"
    by (auto intro: filter_True)
  with assms(2) show ?thesis by simp
qed

lemma setStoryChanges_hit:
  "\<forall>s \<in> set (setStoryChanges sid cs xs). id_S s = sid \<longrightarrow> changes s = cs"
proof (intro ballI impI)
  fix s
  assume "s \<in> set (setStoryChanges sid cs xs)" and hit: "id_S s = sid"
  then have "s \<in> (\<lambda>story. if id_S story = sid then story\<lparr>changes := cs\<rparr> else story) ` set xs"
    by (simp only: setStoryChanges_def set_map)
  then obtain t where s: "s = (if id_S t = sid then t\<lparr>changes := cs\<rparr> else t)"
    by (rule imageE)
  show "changes s = cs"
  proof (cases "id_S t = sid")
    case True
    with s show ?thesis by simp
  next
    case False
    with s have "s = t" by simp
    with hit False show ?thesis by simp
  qed
qed

lemma setStoryChanges_miss:
  "sid \<notin> id_S ` set xs \<Longrightarrow> setStoryChanges sid cs xs = xs"
  by (induction xs) (auto simp: setStoryChanges_def)

lemma addChange_result_Undefined:
  "addChange_result l1 l2 now sid ty draft w = Undefined"
  by (simp add: addChange_result_def split: prod.split option.split)

lemma removeChange_result_Undefined:
  "removeChange_result l1 l2 sid cid w = Undefined"
  by (simp add: removeChange_result_def split: prod.split option.split)

lemma toString_examples:
  "toString 1704153600000 = ''1704153600000''"
  "toString 1704240000000 = ''1704240000000''"
  by (simp_all add: toString.simps digit_def)

section \<open>Claims on the change log editor\<close>

text \<open>
  C1, as stated, fails: the call returns nothing. For a valid draft on a story that holds
  one change, the store holds the old change and the new record after the call, but what
  the caller of \<open>addChange\<close> gets back is \<open>undefined\<close>, not that list.
\<close>

theorem append_returns_nothing_counterexample:
  "validate fooForm = Inr fooField
   \<and> fst (select_changes Up ''s1''
        (fst (addChange Up Up 1704240000000 ''s1'' (changeType fooForm) fooField
           (aStore [aStory ''s1'' ''alice'' ''US-1'' [aChange ''1704153600000'']],
            aliceSession [aStory ''s1'' ''alice'' ''US-1'' [aChange ''1704153600000'']]))))
      = Inr [aChange ''1704153600000'', aChange ''1704240000000'']
   \<and> addChange_result Up Up 1704240000000 ''s1'' (changeType fooForm) fooField
        (aStore [aStory ''s1'' ''alice'' ''US-1'' [aChange ''1704153600000'']],
         aliceSession [aStory ''s1'' ''alice'' ''US-1'' [aChange ''1704153600000'']])
      = Undefined
   \<and> addChange_result Up Up 1704240000000 ''s1'' (changeType fooForm) fooField
        (aStore [aStory ''s1'' ''alice'' ''US-1'' [aChange ''1704153600000'']],
         aliceSession [aStory ''s1'' ''alice'' ''US-1'' [aChange ''1704153600000'']])
      \<noteq> Value [aChange ''1704153600000'', aChange ''1704240000000'']"
  by (simp add: toString_examples validate_def fooForm_def initialForm_def fooField_def
      addChange_result_def addChange_def addChange_read_def addChange_write_def
      select_changes_def update_changes_def setStoryChanges_def aStore_def aStory_def
      aChange_def aliceSession_def initialComponent_def)

text \<open>
  C1, amended. Appending validates the draft first. A draft that fails validation only
  sets the error message: the store, with its log of requests, and the form are as before,
  so no remote call was made. For a valid draft whose read of the story's changes answers
  \<open>current\<close> and whose write succeeds, the requests made are that read and one write of
  \<open>current\<close> followed by the one new record (id from the clock, the form's type, the
  validated details); the store holds that list for the story and a new read returns it.
  The list is put into the cache: every cached story with that id has it as its changes
  afterwards, and a cache without such a story is unchanged. The call returns nothing.
\<close>

theorem append_validates_then_appends_one:
  "(validate f = Inl message \<longrightarrow>
      handleAddChange l1 l2 now sid (f, r, st) = (f, r, st\<lparr>errorMessage := message\<rparr>))
   \<and> (validate f = Inr draft \<and> fst (select_changes l1 sid r) = Inr current \<and> l2 = Up \<longrightarrow>
        handleAddChange l1 l2 now sid (f, r, st)
          = (resetForm f,
             r\<lparr>rows := setStoryChanges sid
                    (current @ [\<lparr>id_C = toString now, type_C = changeType f, details = draft\<rparr>])
                    (rows r),
               requests := requests r @ [SelectChanges sid, UpdateChanges sid
                    (current @ [\<lparr>id_C = toString now, type_C = changeType f, details = draft\<rparr>])]\<rparr>,
             st\<lparr>userStories := setStoryChanges sid
                    (current @ [\<lparr>id_C = toString now, type_C = changeType f, details = draft\<rparr>])
                    (userStories st)\<rparr>)
        \<and> fst (select_changes Up sid (fst (snd (handleAddChange l1 l2 now sid (f, r, st)))))
          = Inr (current @ [\<lparr>id_C = toString now, type_C = changeType f, details = draft\<rparr>])
        \<and> (\<forall>s \<in> set (userStories (snd (snd (handleAddChange l1 l2 now sid (f, r, st))))).
              id_S s = sid \<longrightarrow>
              changes s
                = current @ [\<lparr>id_C = toString now, type_C = changeType f, details = draft\<rparr>])
        \<and> (sid \<notin> id_S ` set (userStories st) \<longrightarrow>
              userStories (snd (snd (handleAddChange l1 l2 now sid (f, r, st)))) = userStories st))
   \<and> addChange_result l1 l2 now sid (changeType f) draft (r, st) = Undefined"
proof -
  let ?next = "current @ [\<lparr>id_C = toString now, type_C = changeType f, details = draft\<rparr>]"
  have rejected: "handleAddChange l1 l2 now sid (f, r, st) = (f, r, st\<lparr>errorMessage := message\<rparr>)"
    if "validate f = Inl message"
    using that by (simp add: handleAddChange_def)
  have accepted: "handleAddChange l1 l2 now sid (f, r, st)
          = (resetForm f,
             r\<lparr>rows := setStoryChanges sid ?next (rows r),
               requests := requests r @ [SelectChanges sid, UpdateChanges sid ?next]\<rparr>,
             st\<lparr>userStories := setStoryChanges sid ?next (userStories st)\<rparr>)
        \<and> fst (select_changes Up sid (fst (snd (handleAddChange l1 l2 now sid (f, r, st)))))
          = Inr ?next
        \<and> (\<forall>s \<in> set (userStories (snd (snd (handleAddChange l1 l2 now sid (f, r, st))))).
              id_S s = sid \<longrightarrow> changes s = ?next)
        \<and> (sid \<notin> id_S ` set (userStories st) \<longrightarrow>
              userStories (snd (snd (handleAddChange l1 l2 now sid (f, r, st)))) = userStories st)"
    if ok: "validate f = Inr draft \<and> fst (select_changes l1 sid r) = Inr current \<and> l2 = Up"
  proof -
    from ok have rd: "fst (select_changes l1 sid r) = Inr current" by simp
    from ok have res: "handleAddChange l1 l2 now sid (f, r, st)
        = (resetForm f,
           r\<lparr>rows := setStoryChanges sid ?next (rows r),
             requests := requests r @ [SelectChanges sid, UpdateChanges sid ?next]\<rparr>,
           st\<lparr>userStories := setStoryChanges sid ?next (userStories st)\<rparr>)"
      by (simp add: handleAddChange_def addChange_ok [OF rd])
    have stored: "fst (select_changes Up sid (fst (snd (handleAddChange l1 l2 now sid (f, r, st)))))
        = Inr ?next"
      by (simp only: res fst_conv snd_conv select_after_update [OF rd])
    have cache: "userStories (snd (snd (handleAddChange l1 l2 now sid (f, r, st))))
        = setStoryChanges sid ?next (userStories st)"
      by (simp add: res)
    have hit: "\<forall>s \<in> set (userStories (snd (snd (handleAddChange l1 l2 now sid (f, r, st))))).
        id_S s = sid \<longrightarrow> changes s = ?next"
      unfolding cache by (rule setStoryChanges_hit)
    have miss: "userStories (snd (snd (handleAddChange l1 l2 now sid (f, r, st)))) = userStories st"
      if "sid \<notin> id_S ` set (userStories st)"
      unfolding cache using that by (rule setStoryChanges_miss)
    from res stored hit miss show ?thesis by blast
  qed
  have void: "addChange_result l1 l2 now sid (changeType f) draft (r, st) = Undefined"
    by (rule addChange_result_Undefined)
  show ?thesis
    apply (rule conjI)
     apply (rule impI, erule rejected)
    apply (rule conjI)
     apply (rule impI, erule accepted)
    apply (rule void)
    done
qed

theorem append_validates_then_appends_one_witness:
  "validate initialForm = Inl ''Please select a date for the change.''
   \<and> handleAddChange Up Up 1704240000000 ''s1''
        (initialForm, aStore [aStory ''s1'' ''alice'' ''US-1'' [aChange ''1704153600000'']],
         aliceSession [aStory ''s1'' ''alice'' ''US-1'' [aChange ''1704153600000'']])
      = (initialForm, aStore [aStory ''s1'' ''alice'' ''US-1'' [aChange ''1704153600000'']],
         (aliceSession [aStory ''s1'' ''alice'' ''US-1'' [aChange ''1704153600000'']])
           \<lparr>errorMessage := ''Please select a date for the change.''\<rparr>)
   \<and> validate fooForm = Inr fooField
   \<and> fst (select_changes Up ''s1'' (aStore [aStory ''s1'' ''alice'' ''US-1'' [aChange ''1704153600000'']]))
      = Inr [aChange ''1704153600000'']
   \<and> handleAddChange Up Up 1704240000000 ''s1''
        (fooForm, aStore [aStory ''s1'' ''alice'' ''US-1'' [aChange ''1704153600000'']],
         aliceSession [aStory ''s1'' ''alice'' ''US-1'' [aChange ''1704153600000'']])
      = (initialForm,
         \<lparr>rows = [aStory ''s1'' ''alice'' ''US-1''
                    [aChange ''1704153600000'', aChange ''1704240000000'']],
          requests = [SelectChanges ''s1'', UpdateChanges ''s1''
                    [aChange ''1704153600000'', aChange ''1704240000000'']]\<rparr>,
         aliceSession [aStory ''s1'' ''alice'' ''US-1''
                    [aChange ''1704153600000'', aChange ''1704240000000'']])"
proof -
  let ?r = "aStore [aStory ''s1'' ''alice'' ''US-1'' [aChange ''1704153600000'']]"
  let ?st = "aliceSession [aStory ''s1'' ''alice'' ''US-1'' [aChange ''1704153600000'']]"
  have bad: "validate initialForm = Inl ''Please select a date for the change.''"
    by (simp add: validate_def initialForm_def)
  have good: "validate fooForm = Inr fooField"
    by (simp add: validate_def fooForm_def initialForm_def fooField_def)
  have rd: "fst (select_changes Up ''s1'' ?r) = Inr [aChange ''1704153600000'']"
    by (simp add: select_changes_def aStore_def aStory_def)
  have rejected: "handleAddChange Up Up 1704240000000 ''s1'' (initialForm, ?r, ?st)
      = (initialForm, ?r, ?st\<lparr>errorMessage := ''Please select a date for the change.''\<rparr>)"
    by (rule mp [OF append_validates_then_appends_one
          [of initialForm "''Please select a date for the change.''" Up Up 1704240000000
            "''s1''" ?r ?st, THEN conjunct1] bad])
  from good rd have ok: "validate fooForm = Inr fooField
      \<and> fst (select_changes Up ''s1'' ?r) = Inr [aChange ''1704153600000''] \<and> Up = Up"
    by simp
  have "handleAddChange Up Up 1704240000000 ''s1'' (fooForm, ?r, ?st)
      = (resetForm fooForm,
         ?r\<lparr>rows := setStoryChanges ''s1''
                ([aChange ''1704153600000''] @ [\<lparr>id_C = toString 1704240000000,
                    type_C = changeType fooForm, details = fooField\<rparr>]) (rows ?r),
            requests := requests ?r @ [SelectChanges ''s1'', UpdateChanges ''s1''
                ([aChange ''1704153600000''] @ [\<lparr>id_C = toString 1704240000000,
                    type_C = changeType fooForm, details = fooField\<rparr>])]\<rparr>,
         ?st\<lparr>userStories := setStoryChanges ''s1''
                ([aChange ''1704153600000''] @ [\<lparr>id_C = toString 1704240000000,
                    type_C = changeType fooForm, details = fooField\<rparr>]) (userStories ?st)\<rparr>)"
    by (rule mp [OF append_validates_then_appends_one
          [of fooForm _ Up Up 1704240000000 "''s1''" ?r ?st fooField "[aChange ''1704153600000'']",
            THEN conjunct2, THEN conjunct1] ok, THEN conjunct1])
  then have accepted: "handleAddChange Up Up 1704240000000 ''s1'' (fooForm, ?r, ?st)
      = (initialForm,
         \<lparr>rows = [aStory ''s1'' ''alice'' ''US-1''
                    [aChange ''1704153600000'', aChange ''1704240000000'']],
          requests = [SelectChanges ''s1'', UpdateChanges ''s1''
                    [aChange ''1704153600000'', aChange ''1704240000000'']]\<rparr>,
         aliceSession [aStory ''s1'' ''alice'' ''US-1''
                    [aChange ''1704153600000'', aChange ''1704240000000'']])"
    by (simp add: toString_examples resetForm_def fooForm_def initialForm_def aStore_def
        aStory_def aChange_def aliceSession_def initialComponent_def setStoryChanges_def)
  from bad rejected good rd accepted show ?thesis by blast
qed

text \<open>
  C2. When the read of the current changes fails, or the read succeeds and the write
  fails, \<open>addChange\<close> and \<open>removeChange\<close> set the error message and change nothing
  else of the component's state; in particular the cached stories are the ones from before
  the call.
\<close>

theorem failed_read_or_write_keeps_cache:
  "(fst (select_changes l1 sid r) = Inl e \<longrightarrow>
      snd (addChange l1 l2 now sid ty draft (r, st))
        = st\<lparr>errorMessage := ''Error fetching user story''\<rparr>
      \<and> snd (removeChange l1 l2 sid cid (r, st))
        = st\<lparr>errorMessage := ''Error fetching user story''\<rparr>)
   \<and> (fst (select_changes l1 sid r) = Inr current \<and> l2 = Down \<longrightarrow>
      snd (addChange l1 l2 now sid ty draft (r, st))
        = st\<lparr>errorMessage := ''Error adding change''\<rparr>
      \<and> snd (removeChange l1 l2 sid cid (r, st))
        = st\<lparr>errorMessage := ''Error removing change''\<rparr>)
   \<and> (fst (select_changes l1 sid r) = Inl e \<or> l2 = Down \<longrightarrow>
      userStories (snd (addChange l1 l2 now sid ty draft (r, st))) = userStories st
      \<and> userStories (snd (removeChange l1 l2 sid cid (r, st))) = userStories st)"
proof -
  have rd: "snd (addChange l1 l2 now sid ty draft (r, st))
        = st\<lparr>errorMessage := ''Error fetching user story''\<rparr>
      \<and> snd (removeChange l1 l2 sid cid (r, st))
        = st\<lparr>errorMessage := ''Error fetching user story''\<rparr>"
    if "fst (select_changes l1 sid r) = Inl e'" for e'
    by (simp add: addChange_def removeChange_def addChange_read_fail [OF that]
        removeChange_read_fail [OF that])
  have wr: "snd (addChange l1 l2 now sid ty draft (r, st))
        = st\<lparr>errorMessage := ''Error adding change''\<rparr>
      \<and> snd (removeChange l1 l2 sid cid (r, st))
        = st\<lparr>errorMessage := ''Error removing change''\<rparr>"
    if "fst (select_changes l1 sid r) = Inr current'" and "l2 = Down" for current'
    by (simp add: addChange_def removeChange_def addChange_read_ok [OF that(1)]
        removeChange_read_ok [OF that(1)] that(2) addChange_write_Down removeChange_write_Down)
  have keep: "userStories (snd (addChange l1 l2 now sid ty draft (r, st))) = userStories st
      \<and> userStories (snd (removeChange l1 l2 sid cid (r, st))) = userStories st"
    if "fst (select_changes l1 sid r) = Inl e \<or> l2 = Down"
  proof (cases "fst (select_changes l1 sid r)")
    case (Inl e')
    from rd [OF Inl] show ?thesis by simp
  next
    case (Inr current')
    with that have "l2 = Down" by simp
    from wr [OF Inr this] show ?thesis by simp
  qed
  from rd wr keep show ?thesis by blast
qed

theorem failed_read_or_write_keeps_cache_witness:
  "fst (select_changes Down ''s1'' (aStore [aStory ''s1'' ''alice'' ''US-1'' []])) = Inl Unreachable
   \<and> snd (addChange Down Up 1704240000000 ''s1'' Field fooField
            (aStore [aStory ''s1'' ''alice'' ''US-1'' []], aliceSession [aStory ''s1'' ''alice'' ''US-1'' []]))
      = (aliceSession [aStory ''s1'' ''alice'' ''US-1'' []])\<lparr>errorMessage := ''Error fetching user story''\<rparr>
   \<and> fst (select_changes Up ''s1'' (aStore [aStory ''s1'' ''alice'' ''US-1'' []])) = Inr []
   \<and> snd (removeChange Up Down ''s1'' ''1704153600000''
            (aStore [aStory ''s1'' ''alice'' ''US-1'' []], aliceSession [aStory ''s1'' ''alice'' ''US-1'' []]))
      = (aliceSession [aStory ''s1'' ''alice'' ''US-1'' []])\<lparr>errorMessage := ''Error removing change''\<rparr>
   \<and> userStories (snd (addChange Up Down 1704240000000 ''s1'' Field fooField
            (aStore [aStory ''s1'' ''alice'' ''US-1'' []], aliceSession [aStory ''s1'' ''alice'' ''US-1'' []])))
      = [aStory ''s1'' ''alice'' ''US-1'' []]"
proof -
  let ?r = "aStore [aStory ''s1'' ''alice'' ''US-1'' []]"
  let ?st = "aliceSession [aStory ''s1'' ''alice'' ''US-1'' []]"
  have down: "fst (select_changes Down ''s1'' ?r) = Inl Unreachable"
    by (simp add: select_changes_def)
  have up: "fst (select_changes Up ''s1'' ?r) = Inr []"
    by (simp add: select_changes_def aStore_def aStory_def)
  from down failed_read_or_write_keeps_cache
    [of Down "''s1''" ?r Unreachable Up 1704240000000 Field fooField ?st]
  have a: "snd (addChange Down Up 1704240000000 ''s1'' Field fooField (?r, ?st))
      = ?st\<lparr>errorMessage := ''Error fetching user story''\<rparr>"
    by blast
  from up failed_read_or_write_keeps_cache
    [of Up "''s1''" ?r _ Down 1704240000000 Field fooField ?st "''1704153600000''" "[]"]
  have b: "snd (removeChange Up Down ''s1'' ''1704153600000'' (?r, ?st))
      = ?st\<lparr>errorMessage := ''Error removing change''\<rparr>"
    and c: "userStories (snd (addChange Up Down 1704240000000 ''s1'' Field fooField (?r, ?st)))
      = userStories ?st"
    by blast+
  have "userStories ?st = [aStory ''s1'' ''alice'' ''US-1'' []]"
    by (simp add: aliceSession_def)
  with down up a b c show ?thesis by simp
qed

text \<open>
  C4, as stated, fails: the call returns nothing. Removing an id that no change of the
  story has leaves the stored list as it was read, but what the caller of \<open>removeChange\<close>
  gets back is \<open>undefined\<close>, not that list.
\<close>

theorem remove_returns_nothing_counterexample:
  "''4'' \<notin> id_C ` set [aChange ''1'', aChange ''2'', aChange ''3'']
   \<and> fst (select_changes Up ''s1''
        (aStore [aStory ''s1'' ''alice'' ''US-1'' [aChange ''1'', aChange ''2'', aChange ''3'']]))
      = Inr [aChange ''1'', aChange ''2'', aChange ''3'']
   \<and> fst (select_changes Up ''s1''
        (fst (removeChange Up Up ''s1'' ''4''
           (aStore [aStory ''s1'' ''alice'' ''US-1'' [aChange ''1'', aChange ''2'', aChange ''3'']],
            aliceSession [aStory ''s1'' ''alice'' ''US-1''
               [aChange ''1'', aChange ''2'', aChange ''3'']]))))
      = Inr [aChange ''1'', aChange ''2'', aChange ''3'']
   \<and> removeChange_result Up Up ''s1'' ''4''
        (aStore [aStory ''s1'' ''alice'' ''US-1'' [aChange ''1'', aChange ''2'', aChange ''3'']],
         aliceSession [aStory ''s1'' ''alice'' ''US-1'' [aChange ''1'', aChange ''2'', aChange ''3'']])
      = Undefined
   \<and> removeChange_result Up Up ''s1'' ''4''
        (aStore [aStory ''s1'' ''alice'' ''US-1'' [aChange ''1'', aChange ''2'', aChange ''3'']],
         aliceSession [aStory ''s1'' ''alice'' ''US-1'' [aChange ''1'', aChange ''2'', aChange ''3'']])
      \<noteq> Value [aChange ''1'', aChange ''2'', aChange ''3'']"
  by (simp add: removeChange_result_def removeChange_def removeChange_read_def
      removeChange_write_def select_changes_def update_changes_def setStoryChanges_def
      aStore_def aStory_def aChange_def aliceSession_def initialComponent_def)

text \<open>
  C4, amended. When the read answers \<open>current\<close> and the write succeeds, \<open>removeChange\<close>
  writes \<open>current\<close> without the entries whose id is the given one, and the store then
  holds that list for the story. The list is put into the cache: every cached story with
  that id has it as its changes afterwards, and a cache without such a story is unchanged.
  When no entry of \<open>current\<close> has the id, the list written and cached is \<open>current\<close>
  itself and the rows of the store are unchanged. The call returns nothing.
\<close>

theorem remove_filters_matching_id:
  "(fst (select_changes l1 sid r) = Inr current \<and> l2 = Up \<longrightarrow>
     removeChange l1 l2 sid cid (r, st)
       = (r\<lparr>rows := setStoryChanges sid (filter (\<lambda>c. id_C c \<noteq> cid) current) (rows r),
            requests := requests r @ [SelectChanges sid,
                UpdateChanges sid (filter (\<lambda>c. id_C c \<noteq> cid) current)]\<rparr>,
          st\<lparr>userStories := setStoryChanges sid (filter (\<lambda>c. id_C c \<noteq> cid) current)
                (userStories st)\<rparr>)
     \<and> fst (select_changes Up sid (fst (removeChange l1 l2 sid cid (r, st))))
       = Inr (filter (\<lambda>c. id_C c \<noteq> cid) current)
     \<and> (\<forall>s \<in> set (userStories (snd (removeChange l1 l2 sid cid (r, st)))).
           id_S s = sid \<longrightarrow> changes s = filter (\<lambda>c. id_C c \<noteq> cid) current)
     \<and> (sid \<notin> id_S ` set (userStories st) \<longrightarrow>
           userStories (snd (removeChange l1 l2 sid cid (r, st))) = userStories st)
     \<and> (cid \<notin> id_C ` set current \<longrightarrow>
          filter (\<lambda>c. id_C c \<noteq> cid) current = current
          \<and> rows (fst (removeChange l1 l2 sid cid (r, st))) = rows r
          \<and> userStories (snd (removeChange l1 l2 sid cid (r, st)))
            = setStoryChanges sid current (userStories st)))
   \<and> removeChange_result l1 l2 sid cid (r, st) = Undefined"
proof -
  let ?upd = "filter (\<lambda>c. id_C c \<noteq> cid) current"
  have removed: "removeChange l1 l2 sid cid (r, st)
       = (r\<lparr>rows := setStoryChanges sid ?upd (rows r),
            requests := requests r @ [SelectChanges sid, UpdateChanges sid ?upd]\<rparr>,
          st\<lparr>userStories := setStoryChanges sid ?upd (userStories st)\<rparr>)
     \<and> fst (select_changes Up sid (fst (removeChange l1 l2 sid cid (r, st)))) = Inr ?upd
     \<and> (\<forall>s \<in> set (userStories (snd (removeChange l1 l2 sid cid (r, st)))).
           id_S s = sid \<longrightarrow> changes s = ?upd)
     \<and> (sid \<notin> id_S ` set (userStories st) \<longrightarrow>
           userStories (snd (removeChange l1 l2 sid cid (r, st))) = userStories st)
     \<and> (cid \<notin> id_C ` set current \<longrightarrow>
          ?upd = current
          \<and> rows (fst (removeChange l1 l2 sid cid (r, st))) = rows r
          \<and> userStories (snd (removeChange l1 l2 sid cid (r, st)))
            = setStoryChanges sid current (userStories st))"
    if ok: "fst (select_changes l1 sid r) = Inr current \<and> l2 = Up"
  proof -
    from ok have rd: "fst (select_changes l1 sid r) = Inr current" and l2: "l2 = Up" by simp_all
    have res: "removeChange l1 l2 sid cid (r, st)
         = (r\<lparr>rows := setStoryChanges sid ?upd (rows r),
              requests := requests r @ [SelectChanges sid, UpdateChanges sid ?upd]\<rparr>,
            st\<lparr>userStories := setStoryChanges sid ?upd (userStories st)\<rparr>)"
      unfolding l2 by (rule removeChange_ok [OF rd])
    have reread: "fst (select_changes Up sid (fst (removeChange l1 l2 sid cid (r, st)))) = Inr ?upd"
      by (simp only: res fst_conv select_after_update [OF rd])
    have cache: "userStories (snd (removeChange l1 l2 sid cid (r, st)))
        = setStoryChanges sid ?upd (userStories st)"
      by (simp add: res)
    have hit: "\<forall>s \<in> set (userStories (snd (removeChange l1 l2 sid cid (r, st)))).
        id_S s = sid \<longrightarrow> changes s = ?upd"
      unfolding cache by (rule setStoryChanges_hit)
    have miss: "userStories (snd (removeChange l1 l2 sid cid (r, st))) = userStories st"
      if "sid \<notin> id_S ` set (userStories st)"
      unfolding cache using that by (rule setStoryChanges_miss)
    have noop: "?upd = current
        \<and> rows (fst (removeChange l1 l2 sid cid (r, st))) = rows r
        \<and> userStories (snd (removeChange l1 l2 sid cid (r, st)))
              = setStoryChanges sid current (userStories st)"
      if "cid \<notin> id_C ` set current"
    proof -
      from that have same: "?upd = current" by (auto intro: filter_True)
      then show ?thesis by (simp add: res setStoryChanges_current [OF rd])
    qed
    from res reread hit miss noop show ?thesis by blast
  qed
  have void: "removeChange_result l1 l2 sid cid (r, st) = Undefined"
    by (rule removeChange_result_Undefined)
  show ?thesis
    apply (rule conjI)
     apply (rule impI, erule removed)
    apply (rule void)
    done
qed

theorem remove_filters_matching_id_witness:
  "fst (select_changes Up ''s1''
      (aStore [aStory ''s1'' ''alice'' ''US-1'' [aChange ''1'', aChange ''2'', aChange ''3'']]))
     = Inr [aChange ''1'', aChange ''2'', aChange ''3'']
   \<and> rows (fst (removeChange Up Up ''s1'' ''2''
        (aStore [aStory ''s1'' ''alice'' ''US-1'' [aChange ''1'', aChange ''2'', aChange ''3'']],
         aliceSession [aStory ''s1'' ''alice'' ''US-1'' [aChange ''1'', aChange ''2'', aChange ''3'']])))
     = [aStory ''s1'' ''alice'' ''US-1'' [aChange ''1'', aChange ''3'']]
   \<and> ''4'' \<notin> id_C ` set [aChange ''1'', aChange ''2'', aChange ''3'']
   \<and> rows (fst (removeChange Up Up ''s1'' ''4''
        (aStore [aStory ''s1'' ''alice'' ''US-1'' [aChange ''1'', aChange ''2'', aChange ''3'']],
         aliceSession [aStory ''s1'' ''alice'' ''US-1'' [aChange ''1'', aChange ''2'', aChange ''3'']])))
     = [aStory ''s1'' ''alice'' ''US-1'' [aChange ''1'', aChange ''2'', aChange ''3'']]"
proof -
  let ?cs = "[aChange ''1'', aChange ''2'', aChange ''3'']"
  let ?r = "aStore [aStory ''s1'' ''alice'' ''US-1'' ?cs]"
  let ?st = "aliceSession [aStory ''s1'' ''alice'' ''US-1'' ?cs]"
  have rd: "fst (select_changes Up ''s1'' ?r) = Inr ?cs"
    by (simp add: select_changes_def aStore_def aStory_def)
  have absent: "''4'' \<notin> id_C ` set ?cs"
    by (simp add: aChange_def)
  from rd have ok: "fst (select_changes Up ''s1'' ?r) = Inr ?cs \<and> Up = Up"
    by simp
  have "removeChange Up Up ''s1'' ''2'' (?r, ?st)
       = (?r\<lparr>rows := setStoryChanges ''s1'' (filter (\<lambda>c. id_C c \<noteq> ''2'') ?cs) (rows ?r),
            requests := requests ?r @ [SelectChanges ''s1'',
                UpdateChanges ''s1'' (filter (\<lambda>c. id_C c \<noteq> ''2'') ?cs)]\<rparr>,
          ?st\<lparr>userStories := setStoryChanges ''s1'' (filter (\<lambda>c. id_C c \<noteq> ''2'') ?cs)
                (userStories ?st)\<rparr>)"
    by (rule mp [OF remove_filters_matching_id [of Up "''s1''" ?r ?cs Up "''2''" ?st,
          THEN conjunct1] ok, THEN conjunct1])
  then have two: "rows (fst (removeChange Up Up ''s1'' ''2'' (?r, ?st)))
      = [aStory ''s1'' ''alice'' ''US-1'' [aChange ''1'', aChange ''3'']]"
    by (simp add: aStore_def aStory_def aChange_def setStoryChanges_def)
  have "rows (fst (removeChange Up Up ''s1'' ''4'' (?r, ?st))) = rows ?r"
    by (rule mp [OF mp [OF remove_filters_matching_id [of Up "''s1''" ?r ?cs Up "''4''" ?st,
          THEN conjunct1] ok, THEN conjunct2, THEN conjunct2, THEN conjunct2, THEN conjunct2]
        absent, THEN conjunct2, THEN conjunct1])
  then have four: "rows (fst (removeChange Up Up ''s1'' ''4'' (?r, ?st)))
      = [aStory ''s1'' ''alice'' ''US-1'' ?cs]"
    by (simp add: aStore_def)
  from rd two absent four show ?thesis by blast
qed

text \<open>
  C3, as stated, fails: the id of the new record is the clock reading, and
  \<open>removeChange\<close> drops every entry with the given id. A story that already holds a
  change created in the same millisecond loses that change too, so the sequence after the
  round trip (empty) is not the one before it (one change).
\<close>

theorem append_then_remove_collision_counterexample:
  "fst (select_changes Up ''s1''
      (aStore [aStory ''s1'' ''alice'' ''US-1'' [aChange ''1704153600000'']]))
     = Inr [aChange ''1704153600000'']
   \<and> fst (select_changes Up ''s1''
        (fst (removeChange Up Up ''s1'' (toString 1704153600000)
               (addChange Up Up 1704153600000 ''s1'' Field fooField
                  (aStore [aStory ''s1'' ''alice'' ''US-1'' [aChange ''1704153600000'']],
                   aliceSession [aStory ''s1'' ''alice'' ''US-1'' [aChange ''1704153600000'']])))))
     = Inr []
   \<and> userStories
        (snd (removeChange Up Up ''s1'' (toString 1704153600000)
               (addChange Up Up 1704153600000 ''s1'' Field fooField
                  (aStore [aStory ''s1'' ''alice'' ''US-1'' [aChange ''1704153600000'']],
                   aliceSession [aStory ''s1'' ''alice'' ''US-1'' [aChange ''1704153600000'']]))))
     = [aStory ''s1'' ''alice'' ''US-1'' []]"
  by (simp add: toString_examples addChange_def addChange_read_def addChange_write_def
      removeChange_def removeChange_read_def removeChange_write_def select_changes_def
      update_changes_def setStoryChanges_def aStore_def aStory_def aChange_def
      aliceSession_def initialComponent_def)

text \<open>
  C3, amended. When the read of the story answers \<open>current\<close> and the id taken from the
  clock is the id of no entry of \<open>current\<close>, appending and then removing the change with
  that id restores the stored changes of the story to \<open>current\<close>, with the rows of the
  store as before; the cached story receives \<open>current\<close>, so a cache that agreed with the
  store is as before too.
\<close>

theorem append_then_remove_round_trip_fresh_id:
  "fst (select_changes Up sid r) = Inr current \<and> toString now \<notin> id_C ` set current \<longrightarrow>
     fst (select_changes Up sid (fst (addChange Up Up now sid ty draft (r, st))))
       = Inr (current @ [\<lparr>id_C = toString now, type_C = ty, details = draft\<rparr>])
     \<and> fst (select_changes Up sid
          (fst (removeChange Up Up sid (toString now) (addChange Up Up now sid ty draft (r, st)))))
       = Inr current
     \<and> rows (fst (removeChange Up Up sid (toString now) (addChange Up Up now sid ty draft (r, st))))
       = rows r
     \<and> userStories
          (snd (removeChange Up Up sid (toString now) (addChange Up Up now sid ty draft (r, st))))
       = setStoryChanges sid current (userStories st)
     \<and> ((\<forall>s \<in> set (userStories st). id_S s = sid \<longrightarrow> changes s = current) \<longrightarrow>
          userStories
            (snd (removeChange Up Up sid (toString now) (addChange Up Up now sid ty draft (r, st))))
          = userStories st)"
proof (intro impI)
  assume pre: "fst (select_changes Up sid r) = Inr current \<and> toString now \<notin> id_C ` set current"
  let ?new = "\<lparr>id_C = toString now, type_C = ty, details = draft\<rparr>"
  let ?r1 = "r\<lparr>rows := setStoryChanges sid (current @ [?new]) (rows r),
               requests := requests r @ [SelectChanges sid, UpdateChanges sid (current @ [?new])]\<rparr>"
  let ?st1 = "st\<lparr>userStories := setStoryChanges sid (current @ [?new]) (userStories st)\<rparr>"
  from pre have rd: "fst (select_changes Up sid r) = Inr current"
    and fresh: "toString now \<notin> id_C ` set current" by simp_all
  have add: "addChange Up Up now sid ty draft (r, st) = (?r1, ?st1)"
    by (rule addChange_ok [OF rd])
  have rd1: "fst (select_changes Up sid ?r1) = Inr (current @ [?new])"
    by (rule select_after_update [OF rd])
  have flt: "filter (\<lambda>c. id_C c \<noteq> toString now) (current @ [?new]) = current"
    by (rule filter_appended_fresh [OF fresh]) simp
  have rem: "removeChange Up Up sid (toString now) (?r1, ?st1)
      = (?r1\<lparr>rows := setStoryChanges sid current (rows ?r1),
              requests := requests ?r1 @ [SelectChanges sid, UpdateChanges sid current]\<rparr>,
         ?st1\<lparr>userStories := setStoryChanges sid current (userStories ?st1)\<rparr>)"
    using removeChange_ok [OF rd1, of "toString now" ?st1] by (simp only: flt)
  have rows2: "rows (fst (removeChange Up Up sid (toString now) (?r1, ?st1))) = rows r"
    by (simp add: rem setStoryChanges_twice setStoryChanges_current [OF rd])
  have rd2: "fst (select_changes Up sid (fst (removeChange Up Up sid (toString now) (?r1, ?st1))))
      = Inr current"
    by (simp only: rem fst_conv select_after_update [OF rd1])
  have cache: "userStories (snd (removeChange Up Up sid (toString now) (?r1, ?st1)))
      = setStoryChanges sid current (userStories st)"
    by (simp add: rem setStoryChanges_twice)
  have sync: "userStories (snd (removeChange Up Up sid (toString now) (?r1, ?st1))) = userStories st"
    if "\<forall>s \<in> set (userStories st). id_S s = sid \<longrightarrow> changes s = current"
    using cache setStoryChanges_same [OF that] by simp
  from rd1 rd2 rows2 cache sync
  show "fst (select_changes Up sid (fst (addChange Up Up now sid ty draft (r, st))))
       = Inr (current @ [?new])
     \<and> fst (select_changes Up sid
          (fst (removeChange Up Up sid (toString now) (addChange Up Up now sid ty draft (r, st)))))
       = Inr current
     \<and> rows (fst (removeChange Up Up sid (toString now) (addChange Up Up now sid ty draft (r, st))))
       = rows r
     \<and> userStories
          (snd (removeChange Up Up sid (toString now) (addChange Up Up now sid ty draft (r, st))))
       = setStoryChanges sid current (userStories st)
     \<and> ((\<forall>s \<in> set (userStories st). id_S s = sid \<longrightarrow> changes s = current) \<longrightarrow>
          userStories
            (snd (removeChange Up Up sid (toString now) (addChange Up Up now sid ty draft (r, st))))
          = userStories st)"
    unfolding add by (simp only: fst_conv) blast
qed

theorem append_then_remove_round_trip_fresh_id_witness:
  "fst (select_changes Up ''s1''
      (aStore [aStory ''s1'' ''alice'' ''US-1'' [aChange ''1704153600000'']]))
     = Inr [aChange ''1704153600000'']
   \<and> toString 1704240000000 \<notin> id_C ` set [aChange ''1704153600000'']
   \<and> fst (select_changes Up ''s1''
        (fst (removeChange Up Up ''s1'' (toString 1704240000000)
               (addChange Up Up 1704240000000 ''s1'' Field fooField
                  (aStore [aStory ''s1'' ''alice'' ''US-1'' [aChange ''1704153600000'']],
                   aliceSession [aStory ''s1'' ''alice'' ''US-1'' [aChange ''1704153600000'']])))))
     = Inr [aChange ''1704153600000'']
   \<and> userStories
        (snd (removeChange Up Up ''s1'' (toString 1704240000000)
               (addChange Up Up 1704240000000 ''s1'' Field fooField
                  (aStore [aStory ''s1'' ''alice'' ''US-1'' [aChange ''1704153600000'']],
                   aliceSession [aStory ''s1'' ''alice'' ''US-1'' [aChange ''1704153600000'']]))))
     = [aStory ''s1'' ''alice'' ''US-1'' [aChange ''1704153600000'']]"
proof -
  let ?cs = "[aChange ''1704153600000'']"
  let ?r = "aStore [aStory ''s1'' ''alice'' ''US-1'' ?cs]"
  let ?st = "aliceSession [aStory ''s1'' ''alice'' ''US-1'' ?cs]"
  have rd: "fst (select_changes Up ''s1'' ?r) = Inr ?cs"
    by (simp add: select_changes_def aStore_def aStory_def)
  have fresh: "toString 1704240000000 \<notin> id_C ` set ?cs"
    by (simp add: toString_examples aChange_def)
  have sync: "\<forall>s \<in> set (userStories ?st). id_S s = ''s1'' \<longrightarrow> changes s = ?cs"
    by (simp add: aliceSession_def aStory_def)
  have cache: "userStories ?st = [aStory ''s1'' ''alice'' ''US-1'' ?cs]"
    by (simp add: aliceSession_def)
  from rd fresh sync
    append_then_remove_round_trip_fresh_id [of "''s1''" ?r ?cs 1704240000000 Field fooField ?st]
  have "fst (select_changes Up ''s1''
        (fst (removeChange Up Up ''s1'' (toString 1704240000000)
               (addChange Up Up 1704240000000 ''s1'' Field fooField (?r, ?st))))) = Inr ?cs"
    and "userStories
        (snd (removeChange Up Up ''s1'' (toString 1704240000000)
               (addChange Up Up 1704240000000 ''s1'' Field fooField (?r, ?st)))) = userStories ?st"
    by blast+
  with rd fresh cache show ?thesis by simp
qed

text \<open>
  C8. Two calls of \<open>addChange\<close> on one story, the second reading before the first has
  written: both reads answer the same \<open>current\<close>, each call writes \<open>current\<close> followed by
  its own record, and the second write replaces the first. The story then holds
  \<open>current\<close> and the second record only, in the store and in the cache, where the same
  two calls one after the other leave both records.
\<close>

theorem interleaved_appends_lose_first:
  "fst (select_changes Up sid r) = Inr current \<longrightarrow>
     requests (fst (interleaved_addChange now1 now2 sid ty1 draft1 ty2 draft2 (r, st)))
       = requests r @ [SelectChanges sid, SelectChanges sid,
           UpdateChanges sid (current @ [\<lparr>id_C = toString now1, type_C = ty1, details = draft1\<rparr>]),
           UpdateChanges sid (current @ [\<lparr>id_C = toString now2, type_C = ty2, details = draft2\<rparr>])]
     \<and> fst (select_changes Up sid
          (fst (interleaved_addChange now1 now2 sid ty1 draft1 ty2 draft2 (r, st))))
       = Inr (current @ [\<lparr>id_C = toString now2, type_C = ty2, details = draft2\<rparr>])
     \<and> userStories (snd (interleaved_addChange now1 now2 sid ty1 draft1 ty2 draft2 (r, st)))
       = setStoryChanges sid (current @ [\<lparr>id_C = toString now2, type_C = ty2, details = draft2\<rparr>])
           (userStories st)
     \<and> fst (select_changes Up sid
          (fst (addChange Up Up now2 sid ty2 draft2 (addChange Up Up now1 sid ty1 draft1 (r, st)))))
       = Inr (current @ [\<lparr>id_C = toString now1, type_C = ty1, details = draft1\<rparr>,
                         \<lparr>id_C = toString now2, type_C = ty2, details = draft2\<rparr>])"
proof (intro impI)
  assume rd: "fst (select_changes Up sid r) = Inr current"
  let ?new1 = "\<lparr>id_C = toString now1, type_C = ty1, details = draft1\<rparr>"
  let ?new2 = "\<lparr>id_C = toString now2, type_C = ty2, details = draft2\<rparr>"
  let ?ra = "r\<lparr>requests := requests r @ [SelectChanges sid]\<rparr>"
  let ?rb = "r\<lparr>requests := requests r @ [SelectChanges sid, SelectChanges sid]\<rparr>"
  let ?rc = "r\<lparr>rows := setStoryChanges sid (current @ [?new1]) (rows r),
               requests := requests r @ [SelectChanges sid, SelectChanges sid,
                 UpdateChanges sid (current @ [?new1])]\<rparr>"
  let ?stc = "st\<lparr>userStories := setStoryChanges sid (current @ [?new1]) (userStories st)\<rparr>"
  let ?rd = "r\<lparr>rows := setStoryChanges sid (current @ [?new2]) (rows r),
               requests := requests r @ [SelectChanges sid, SelectChanges sid,
                 UpdateChanges sid (current @ [?new1]), UpdateChanges sid (current @ [?new2])]\<rparr>"
  let ?std = "st\<lparr>userStories := setStoryChanges sid (current @ [?new2]) (userStories st)\<rparr>"
  have read1: "addChange_read Up now1 sid ty1 draft1 (r, st) = (Some (current @ [?new1]), ?ra, st)"
    by (rule addChange_read_ok [OF rd])
  have rda: "fst (select_changes Up sid ?ra) = Inr current"
    by (simp only: select_changes_requests rd)
  have read2: "addChange_read Up now2 sid ty2 draft2 (?ra, st) = (Some (current @ [?new2]), ?rb, st)"
    using addChange_read_ok [OF rda, of now2 ty2 draft2 st] by simp
  have write1: "addChange_write Up sid (current @ [?new1]) (?rb, st) = (?rc, ?stc)"
    by (simp add: addChange_write_Up)
  have write2: "addChange_write Up sid (current @ [?new2]) (?rc, ?stc) = (?rd, ?std)"
    by (simp add: addChange_write_Up setStoryChanges_twice)
  have inter: "interleaved_addChange now1 now2 sid ty1 draft1 ty2 draft2 (r, st) = (?rd, ?std)"
    by (simp only: interleaved_addChange_def read1 read2 write1 write2 prod.case option.case)
  have stored: "fst (select_changes Up sid ?rd) = Inr (current @ [?new2])"
    by (rule select_after_update [OF rd])
  let ?r1 = "r\<lparr>rows := setStoryChanges sid (current @ [?new1]) (rows r),
               requests := requests r @ [SelectChanges sid, UpdateChanges sid (current @ [?new1])]\<rparr>"
  have seq1: "addChange Up Up now1 sid ty1 draft1 (r, st) = (?r1, ?stc)"
    by (rule addChange_ok [OF rd])
  have rd1: "fst (select_changes Up sid ?r1) = Inr (current @ [?new1])"
    by (rule select_after_update [OF rd])
  have seq2: "fst (select_changes Up sid (fst (addChange Up Up now2 sid ty2 draft2 (?r1, ?stc))))
      = Inr ((current @ [?new1]) @ [?new2])"
    by (simp only: addChange_ok [OF rd1] fst_conv select_after_update [OF rd1])
  from stored seq2
  show "requests (fst (interleaved_addChange now1 now2 sid ty1 draft1 ty2 draft2 (r, st)))
       = requests r @ [SelectChanges sid, SelectChanges sid,
           UpdateChanges sid (current @ [?new1]), UpdateChanges sid (current @ [?new2])]
     \<and> fst (select_changes Up sid
          (fst (interleaved_addChange now1 now2 sid ty1 draft1 ty2 draft2 (r, st))))
       = Inr (current @ [?new2])
     \<and> userStories (snd (interleaved_addChange now1 now2 sid ty1 draft1 ty2 draft2 (r, st)))
       = setStoryChanges sid (current @ [?new2]) (userStories st)
     \<and> fst (select_changes Up sid
          (fst (addChange Up Up now2 sid ty2 draft2 (addChange Up Up now1 sid ty1 draft1 (r, st)))))
       = Inr (current @ [?new1, ?new2])"
    unfolding inter seq1 by simp
qed

theorem interleaved_appends_lose_first_witness:
  "fst (select_changes Up ''s1'' (aStore [aStory ''s1'' ''alice'' ''US-1'' []])) = Inr []
   \<and> rows (fst (interleaved_addChange 1704153600000 1704240000000 ''s1'' Field fooField Field fooField
        (aStore [aStory ''s1'' ''alice'' ''US-1'' []], aliceSession [aStory ''s1'' ''alice'' ''US-1'' []])))
     = [aStory ''s1'' ''alice'' ''US-1'' [aChange ''1704240000000'']]
   \<and> fst (select_changes Up ''s1''
        (fst (interleaved_addChange 1704153600000 1704240000000 ''s1'' Field fooField Field fooField
          (aStore [aStory ''s1'' ''alice'' ''US-1'' []], aliceSession [aStory ''s1'' ''alice'' ''US-1'' []]))))
     = Inr [aChange ''1704240000000'']
   \<and> fst (select_changes Up ''s1''
        (fst (addChange Up Up 1704240000000 ''s1'' Field fooField
               (addChange Up Up 1704153600000 ''s1'' Field fooField
                 (aStore [aStory ''s1'' ''alice'' ''US-1'' []],
                  aliceSession [aStory ''s1'' ''alice'' ''US-1'' []])))))
     = Inr [aChange ''1704153600000'', aChange ''1704240000000'']"
proof -
  let ?r = "aStore [aStory ''s1'' ''alice'' ''US-1'' []]"
  let ?st = "aliceSession [aStory ''s1'' ''alice'' ''US-1'' []]"
  have rd: "fst (select_changes Up ''s1'' ?r) = Inr []"
    by (simp add: select_changes_def aStore_def aStory_def)
  have rows: "rows (fst (interleaved_addChange 1704153600000 1704240000000 ''s1'' Field fooField
        Field fooField (?r, ?st)))
     = [aStory ''s1'' ''alice'' ''US-1'' [aChange ''1704240000000'']]"
    by (simp add: toString_examples interleaved_addChange_def addChange_def addChange_read_def
        addChange_write_def select_changes_def update_changes_def setStoryChanges_def
        aStore_def aStory_def aChange_def)
  from rd interleaved_appends_lose_first
    [of "''s1''" ?r "[]" 1704153600000 1704240000000 Field fooField Field fooField ?st]
  have "fst (select_changes Up ''s1''
        (fst (interleaved_addChange 1704153600000 1704240000000 ''s1'' Field fooField Field fooField
          (?r, ?st))))
     = Inr ([] @ [\<lparr>id_C = toString 1704240000000, type_C = Field, details = fooField\<rparr>])"
    and "fst (select_changes Up ''s1''
        (fst (addChange Up Up 1704240000000 ''s1'' Field fooField
               (addChange Up Up 1704153600000 ''s1'' Field fooField (?r, ?st)))))
     = Inr ([] @ [\<lparr>id_C = toString 1704153600000, type_C = Field, details = fooField\<rparr>,
                  \<lparr>id_C = toString 1704240000000, type_C = Field, details = fooField\<rparr>])"
    by blast+
  then have "fst (select_changes Up ''s1''
        (fst (interleaved_addChange 1704153600000 1704240000000 ''s1'' Field fooField Field fooField
          (?r, ?st))))
     = Inr [aChange ''1704240000000'']"
    and "fst (select_changes Up ''s1''
        (fst (addChange Up Up 1704240000000 ''s1'' Field fooField
               (addChange Up Up 1704153600000 ''s1'' Field fooField (?r, ?st)))))
     = Inr [aChange ''1704153600000'', aChange ''1704240000000'']"
    by (simp_all add: toString_examples aChange_def)
  with rd rows show ?thesis by blast
qed

section \<open>Claims on the change codec\<close>

text \<open>
  C5, as stated, fails: a Permission draft with a date and a permission set but no
  permission is rejected, although one of the two fields is present.
\<close>

theorem permission_set_alone_rejected_counterexample:
  "changeType permissionSetOnlyForm = Permission
   \<and> date permissionSetOnlyForm \<noteq> []
   \<and> permissionSet permissionSetOnlyForm \<noteq> []
   \<and> validate permissionSetOnlyForm
       = Inl ''Please fill in all required fields for Permission Change.''"
  by (simp add: permissionSetOnlyForm_def initialForm_def validate_def)

text \<open>
  C5, amended. A Permission draft fails validation exactly when the date, the permission
  set or the permission is missing: both fields are required. A draft that passes carries
  the form's two access flags, which are false while the caller has not set them: the
  form starts with both false and is reset to both false after each add.
\<close>

theorem permission_requires_both_fields:
  "changeType f = Permission \<longrightarrow>
     ((\<exists>message. validate f = Inl message)
        \<longleftrightarrow> date f = [] \<or> permissionSet f = [] \<or> permission f = [])
     \<and> (date f \<noteq> [] \<and> permissionSet f \<noteq> [] \<and> permission f \<noteq> [] \<longrightarrow>
          validate f = Inr (PermissionDetails
            \<lparr>date_Pm = date f, permissionSet_Pm = permissionSet f, permission_Pm = permission f,
             access = \<lparr>read_A = readAccess f, write_A = writeAccess f\<rparr>,
             note_Pm = note_form f\<rparr>))
     \<and> (date f \<noteq> [] \<and> permissionSet f \<noteq> [] \<and> permission f \<noteq> []
          \<and> readAccess f = readAccess initialForm \<and> writeAccess f = writeAccess initialForm \<longrightarrow>
          validate f = Inr (PermissionDetails
            \<lparr>date_Pm = date f, permissionSet_Pm = permissionSet f, permission_Pm = permission f,
             access = \<lparr>read_A = False, write_A = False\<rparr>,
             note_Pm = note_form f\<rparr>))
     \<and> readAccess (resetForm f) = False \<and> writeAccess (resetForm f) = False"
  by (auto simp: validate_def initialForm_def resetForm_def)

theorem permission_requires_both_fields_witness:
  "changeType permissionForm = Permission
   \<and> date permissionForm \<noteq> [] \<and> permissionSet permissionForm \<noteq> []
   \<and> permission permissionForm \<noteq> []
   \<and> readAccess permissionForm = readAccess initialForm
   \<and> writeAccess permissionForm = writeAccess initialForm
   \<and> validate permissionForm = Inr (PermissionDetails
        \<lparr>date_Pm = ''2024-01-02'', permissionSet_Pm = ''Sales_Ops'', permission_Pm = ''Account'',
         access = \<lparr>read_A = False, write_A = False\<rparr>, note_Pm = []\<rparr>)"
proof -
  have pre: "changeType permissionForm = Permission"
    "date permissionForm \<noteq> []" "permissionSet permissionForm \<noteq> []"
    "permission permissionForm \<noteq> []"
    "readAccess permissionForm = readAccess initialForm"
    "writeAccess permissionForm = writeAccess initialForm"
    by (simp_all add: permissionForm_def initialForm_def)
  with permission_requires_both_fields [of permissionForm]
  have "validate permissionForm = Inr (PermissionDetails
        \<lparr>date_Pm = date permissionForm, permissionSet_Pm = permissionSet permissionForm,
         permission_Pm = permission permissionForm,
         access = \<lparr>read_A = False, write_A = False\<rparr>, note_Pm = note_form permissionForm\<rparr>)"
    by blast
  then have "validate permissionForm = Inr (PermissionDetails
        \<lparr>date_Pm = ''2024-01-02'', permissionSet_Pm = ''Sales_Ops'', permission_Pm = ''Account'',
         access = \<lparr>read_A = False, write_A = False\<rparr>, note_Pm = []\<rparr>)"
    by (simp add: permissionForm_def initialForm_def)
  with pre show ?thesis by blast
qed

section \<open>Claims on the story repository and the session\<close>

text \<open>
  C7, as stated, fails: deleting an id that no story of the store has completes without
  any error; the component's state, with its empty error message, is as before.
\<close>

theorem delete_missing_story_counterexample:
  "''s9'' \<notin> id_S ` set (rows twoOwners)
   \<and> removeUserStory Up ''s9''
        (twoOwners, aliceSession [aStory ''s1'' ''alice'' ''US-1'' [aChange ''1704153600000'']])
      = (twoOwners\<lparr>requests := [DeleteStory ''s9'']\<rparr>,
         aliceSession [aStory ''s1'' ''alice'' ''US-1'' [aChange ''1704153600000'']])
   \<and> errorMessage (aliceSession [aStory ''s1'' ''alice'' ''US-1'' [aChange ''1704153600000'']]) = []"
  by (simp add: removeUserStory_def delete_story_def twoOwners_def aStore_def aStory_def
      aliceSession_def initialComponent_def)

text \<open>
  C7, amended. A delete that the store answers without error removes every story with
  that id, with the changes embedded in it, from the store and from the cache, and sets no
  error message, whether or not such a story existed; when none did, the rows of the
  store are unchanged. A delete that the store answers with an error sets the message
  and changes nothing else of the component's state.
\<close>

theorem delete_removes_story_silently:
  "removeUserStory Up sid (r, st)
     = (r\<lparr>rows := filter (\<lambda>s. id_S s \<noteq> sid) (rows r),
          requests := requests r @ [DeleteStory sid]\<rparr>,
        st\<lparr>userStories := filter (\<lambda>s. id_S s \<noteq> sid) (userStories st),
           expandedStories := filter (\<lambda>x. x \<noteq> sid) (expandedStories st)\<rparr>)
   \<and> sid \<notin> id_S ` set (rows (fst (removeUserStory Up sid (r, st))))
   \<and> sid \<notin> id_S ` set (userStories (snd (removeUserStory Up sid (r, st))))
   \<and> errorMessage (snd (removeUserStory Up sid (r, st))) = errorMessage st
   \<and> (sid \<notin> id_S ` set (rows r) \<longrightarrow> rows (fst (removeUserStory Up sid (r, st))) = rows r)
   \<and> snd (removeUserStory Down sid (r, st)) = st\<lparr>errorMessage := ''Error removing user story''\<rparr>"
proof -
  have res: "removeUserStory Up sid (r, st)
     = (r\<lparr>rows := filter (\<lambda>s. id_S s \<noteq> sid) (rows r),
          requests := requests r @ [DeleteStory sid]\<rparr>,
        st\<lparr>userStories := filter (\<lambda>s. id_S s \<noteq> sid) (userStories st),
           expandedStories := filter (\<lambda>x. x \<noteq> sid) (expandedStories st)\<rparr>)"
    by (simp add: removeUserStory_def delete_story_def)
  have gone: "sid \<notin> id_S ` set (rows (fst (removeUserStory Up sid (r, st))))"
    "sid \<notin> id_S ` set (userStories (snd (removeUserStory Up sid (r, st))))"
    by (auto simp: res)
  have msg: "errorMessage (snd (removeUserStory Up sid (r, st))) = errorMessage st"
    by (simp add: res)
  have missing: "rows (fst (removeUserStory Up sid (r, st))) = rows r"
    if "sid \<notin> id_S ` set (rows r)"
  proof -
    from that have "filter (\<lambda>s. id_S s \<noteq> sid) (rows r) = rows r"
      by (auto intro: filter_True)
    then show ?thesis by (simp add: res)
  qed
  have down: "snd (removeUserStory Down sid (r, st))
      = st\<lparr>errorMessage := ''Error removing user story''\<rparr>"
    by (simp add: removeUserStory_def delete_story_def)
  from res gone msg missing down show ?thesis by blast
qed

theorem delete_removes_story_silently_witness:
  "''s9'' \<notin> id_S ` set (rows twoOwners)
   \<and> rows (fst (removeUserStory Up ''s9'' (twoOwners, aliceSession []))) = rows twoOwners
   \<and> rows (fst (removeUserStory Up ''s1'' (twoOwners, aliceSession [])))
      = [aStory ''s2'' ''bob'' ''US-2'' []]"
proof -
  have absent: "''s9'' \<notin> id_S ` set (rows twoOwners)"
    by (simp add: twoOwners_def aStore_def aStory_def)
  with delete_removes_story_silently [of "''s9''" twoOwners "aliceSession []"]
  have a: "rows (fst (removeUserStory Up ''s9'' (twoOwners, aliceSession []))) = rows twoOwners"
    by blast
  from delete_removes_story_silently [of "''s1''" twoOwners "aliceSession []"]
  have "removeUserStory Up ''s1'' (twoOwners, aliceSession [])
     = (twoOwners\<lparr>rows := filter (\<lambda>s. id_S s \<noteq> ''s1'') (rows twoOwners),
          requests := requests twoOwners @ [DeleteStory ''s1'']\<rparr>,
        (aliceSession [])\<lparr>userStories := filter (\<lambda>s. id_S s \<noteq> ''s1'') (userStories (aliceSession [])),
           expandedStories := filter (\<lambda>x. x \<noteq> ''s1'') (expandedStories (aliceSession []))\<rparr>)"
    by blast
  then have b: "rows (fst (removeUserStory Up ''s1'' (twoOwners, aliceSession [])))
      = [aStory ''s2'' ''bob'' ''US-2'' []]"
    by (simp add: twoOwners_def aStore_def aStory_def)
  from absent a b show ?thesis by blast
qed

text \<open>
  C6, as stated, fails. From the initial state: alice signs in and her story is loaded;
  she signs out, and the cache still holds her story; bob signs in and his load fails.
  The state reached has bob as current user and alice's story in the cache, and shows it.
\<close>

theorem stale_cache_after_sign_out_counterexample:
  "userStories (snd (authStateChange Up (Some alice) (twoOwners, initialComponent)))
     = [aStory ''s1'' ''alice'' ''US-1'' [aChange ''1704153600000'']]
   \<and> currentUser (snd (handleLogout None
        (authStateChange Up (Some alice) (twoOwners, initialComponent)))) = None
   \<and> userStories (snd (handleLogout None
        (authStateChange Up (Some alice) (twoOwners, initialComponent))))
     = [aStory ''s1'' ''alice'' ''US-1'' [aChange ''1704153600000'']]
   \<and> currentUser (snd (authStateChange Down (Some bob) (handleLogout None
        (authStateChange Up (Some alice) (twoOwners, initialComponent))))) = Some bob
   \<and> userStories (snd (authStateChange Down (Some bob) (handleLogout None
        (authStateChange Up (Some alice) (twoOwners, initialComponent)))))
     = [aStory ''s1'' ''alice'' ''US-1'' [aChange ''1704153600000'']]
   \<and> visibleStories (snd (authStateChange Down (Some bob) (handleLogout None
        (authStateChange Up (Some alice) (twoOwners, initialComponent)))))
     = [aStory ''s1'' ''alice'' ''US-1'' [aChange ''1704153600000'']]
   \<and> userId (aStory ''s1'' ''alice'' ''US-1'' [aChange ''1704153600000'']) \<noteq> id_U bob"
  by (simp add: authStateChange_def handleLogout_def fetchUserStories_def select_stories_def
      visibleStories_def filteredStories_def matchesNumber_def currentStories_def slice_def
      indexOfFirstStory_def indexOfLastStory_def storiesPerPage_def
      twoOwners_def aStore_def aStory_def alice_def bob_def initialComponent_def)

text \<open>
  C6, amended. A load of the stories that the store answers replaces the cache by the
  store's stories of the authenticated user, so after a sign-in whose load succeeds every
  cached story has that user's id as owner and none of an earlier user's stories is left.
  Sign-out sets the current user to none and keeps the cache; while there is no user, no
  story is shown.
\<close>

theorem successful_fetch_scopes_cache:
  "(currentUser st = Some u \<longrightarrow>
      userStories (snd (fetchUserStories Up (r, st))) = filter (\<lambda>s. userId s = id_U u) (rows r))
   \<and> currentUser (snd (authStateChange Up (Some u) (r, st))) = Some u
   \<and> userStories (snd (authStateChange Up (Some u) (r, st)))
       = filter (\<lambda>s. userId s = id_U u) (rows r)
   \<and> (\<forall>s \<in> set (userStories (snd (authStateChange Up (Some u) (r, st)))). userId s = id_U u)
   \<and> snd (handleLogout None (r, st)) = st\<lparr>currentUser := None\<rparr>
   \<and> visibleStories (snd (handleLogout None (r, st))) = []"
  by (simp add: authStateChange_def handleLogout_def fetchUserStories_def select_stories_def
      visibleStories_def)

theorem successful_fetch_scopes_cache_witness:
  "currentUser (aliceSession [aStory ''s1'' ''alice'' ''US-1'' [aChange ''1704153600000'']])
     = Some alice
   \<and> userStories (snd (authStateChange Up (Some bob)
        (twoOwners, aliceSession [aStory ''s1'' ''alice'' ''US-1'' [aChange ''1704153600000'']])))
     = [aStory ''s2'' ''bob'' ''US-2'' []]
   \<and> userStories (snd (fetchUserStories Up
        (twoOwners, aliceSession [])))
     = [aStory ''s1'' ''alice'' ''US-1'' [aChange ''1704153600000'']]"
proof -
  let ?st = "aliceSession [aStory ''s1'' ''alice'' ''US-1'' [aChange ''1704153600000'']]"
  have who: "currentUser ?st = Some alice" "currentUser (aliceSession []) = Some alice"
    by (simp_all add: aliceSession_def)
  from successful_fetch_scopes_cache [of ?st bob twoOwners]
  have "userStories (snd (authStateChange Up (Some bob) (twoOwners, ?st)))
      = filter (\<lambda>s. userId s = id_U bob) (rows twoOwners)"
    by blast
  then have b: "userStories (snd (authStateChange Up (Some bob) (twoOwners, ?st)))
      = [aStory ''s2'' ''bob'' ''US-2'' []]"
    by (simp add: twoOwners_def aStore_def aStory_def bob_def)
  from who(2) successful_fetch_scopes_cache [of "aliceSession []" alice twoOwners]
  have "userStories (snd (fetchUserStories Up (twoOwners, aliceSession [])))
      = filter (\<lambda>s. userId s = id_U alice) (rows twoOwners)"
    by blast
  then have a: "userStories (snd (fetchUserStories Up (twoOwners, aliceSession [])))
      = [aStory ''s1'' ''alice'' ''US-1'' [aChange ''1704153600000'']]"
    by (simp add: twoOwners_def aStore_def aStory_def alice_def)
  from who(1) a b show ?thesis by blast
qed

end
